theory Spec2Isabelle
  imports Main "HOL-Library.AList" "HOL-Library.Multiset" "HOL-Library.Word"
begin

section \<open>JSON text, as produced by JSON.stringify and read by JSON.parse\<close>

text \<open>
  Entry ids are JSON texts: \<^verbatim>\<open>makeId\<close> is
  \<^verbatim>\<open>JSON.stringify({filename:filename, options:options})\<close> and
  \<^verbatim>\<open>getFilenameFromId\<close> is \<^verbatim>\<open>JSON.parse(id).filename\<close>.
  The values modelled are the ones \<^verbatim>\<open>fs.readFile\<close> takes as options: null, booleans,
  strings, arrays and objects. Numbers are floating point and are left out; a string is a
  list of 8-bit code units. An object is the list of its own enumerable properties in
  enumeration order.
\<close>

datatype json =
    JNull
  | JBool bool
  | JStr string
  | JArr "json list"
  | JObj "(string \<times> json) list"

definition dquote :: char where
  "dquote = CHR 0x22"

definition bslash :: char where
  "bslash = CHR 0x5C"

definition hexdigit :: "nat \<Rightarrow> char" where
  "hexdigit n = (if n < 10 then char_of (48 + n) else char_of (87 + n))"

text \<open>QuoteJSONString: the two-character escapes, \<^verbatim>\<open>\u00XX\<close> for the other control
  characters, every other code unit as it is.\<close>

definition escape_char :: "char \<Rightarrow> string" where
  "escape_char c =
     (if c = dquote then [bslash, dquote]
      else if c = bslash then [bslash, bslash]
      else if c = CHR 0x08 then [bslash, CHR ''b'']
      else if c = CHR 0x09 then [bslash, CHR ''t'']
      else if c = CHR 0x0A then [bslash, CHR ''n'']
      else if c = CHR 0x0C then [bslash, CHR ''f'']
      else if c = CHR 0x0D then [bslash, CHR ''r'']
      else if (of_char c :: nat) < 32
        then [bslash, CHR ''u'', CHR ''0'', CHR ''0'',
              hexdigit ((of_char c :: nat) div 16), hexdigit ((of_char c :: nat) mod 16)]
      else [c])"

definition quote :: "string \<Rightarrow> string" where
  "quote s = dquote # concat (map escape_char s) @ [dquote]"

fun stringify :: "json \<Rightarrow> string"
  and stringify_elems :: "json list \<Rightarrow> string"
  and stringify_members :: "(string \<times> json) list \<Rightarrow> string"
where
  "stringify JNull = ''null''"
| "stringify (JBool b) = (if b then ''true'' else ''false'')"
| "stringify (JStr s) = quote s"
| "stringify (JArr vs) = CHR ''['' # stringify_elems vs @ '']''"
| "stringify (JObj ms) = CHR ''{'' # stringify_members ms @ ''}''"
| "stringify_elems [] = []"
| "stringify_elems (v # vs) =
     stringify v @ (if vs = [] then [] else CHR '','' # stringify_elems vs)"
| "stringify_members [] = []"
| "stringify_members (m # ms) =
     quote (fst m) @ CHR '':'' # stringify (snd m)
       @ (if ms = [] then [] else CHR '','' # stringify_members ms)"

definition is_ws :: "char \<Rightarrow> bool" where
  "is_ws c = (c = CHR '' '' \<or> c = CHR 0x09 \<or> c = CHR 0x0A \<or> c = CHR 0x0D)"

definition skip_ws :: "string \<Rightarrow> string" where
  "skip_ws s = dropWhile is_ws s"

definition hexval :: "char \<Rightarrow> nat option" where
  "hexval c =
     (let n = (of_char c :: nat) in
      if 48 \<le> n \<and> n \<le> 57 then Some (n - 48)
      else if 97 \<le> n \<and> n \<le> 102 then Some (n - 87)
      else if 65 \<le> n \<and> n \<le> 70 then Some (n - 55)
      else None)"

definition unescape :: "char \<Rightarrow> char option" where
  "unescape e =
     (if e = dquote then Some dquote
      else if e = bslash then Some bslash
      else if e = CHR ''/'' then Some CHR ''/''
      else if e = CHR ''b'' then Some (CHR 0x08)
      else if e = CHR ''t'' then Some (CHR 0x09)
      else if e = CHR ''n'' then Some (CHR 0x0A)
      else if e = CHR ''f'' then Some (CHR 0x0C)
      else if e = CHR ''r'' then Some (CHR 0x0D)
      else None)"

definition cons_result :: "char \<Rightarrow> (string \<times> string) option \<Rightarrow> (string \<times> string) option" where
  "cons_result c r = (case r of None \<Rightarrow> None | Some (s, rest) \<Rightarrow> Some (c # s, rest))"

text \<open>The characters of a string token after its opening quote, up to the closing quote.
  None is JSON.parse's SyntaxError. A \<^verbatim>\<open>\uXXXX\<close> escape of a code unit above 255 has no
  8-bit character and is refused as well; \<^verbatim>\<open>stringify\<close> never writes one.\<close>

fun parse_chars :: "string \<Rightarrow> (string \<times> string) option" where
  "parse_chars [] = None"
| "parse_chars (c # cs) =
     (if c = dquote then Some ([], cs)
      else if c = bslash then
        (case cs of
           [] \<Rightarrow> None
         | e # cs1 \<Rightarrow>
             if e = CHR ''u'' then
               (case cs1 of
                  h1 # h2 # h3 # h4 # cs2 \<Rightarrow>
                    (case (hexval h1, hexval h2, hexval h3, hexval h4) of
                       (Some a, Some b, Some c3, Some d) \<Rightarrow>
                         if a = 0 \<and> b = 0 then cons_result (char_of (c3 * 16 + d)) (parse_chars cs2)
                         else None
                     | _ \<Rightarrow> None)
                | _ \<Rightarrow> None)
             else
               (case unescape e of
                  None \<Rightarrow> None
                | Some ch \<Rightarrow> cons_result ch (parse_chars cs1)))
      else if (of_char c :: nat) < 32 then None
      else cons_result c (parse_chars cs))"

text \<open>The recursive-descent reader: white space is skipped before a value and before
  each separator; a number token is outside the values modelled and is refused. The first
  argument bounds the number of nested calls; every call is preceded by at least one
  consumed character, so \<^verbatim>\<open>JSON_parse\<close> below passes the length of the text.\<close>

fun parse_value :: "nat \<Rightarrow> string \<Rightarrow> (json \<times> string) option"
  and parse_elems :: "nat \<Rightarrow> string \<Rightarrow> (json list \<times> string) option"
  and parse_members :: "nat \<Rightarrow> string \<Rightarrow> ((string \<times> json) list \<times> string) option"
where
  "parse_value 0 s = None"
| "parse_value (Suc n) s =
     (case skip_ws s of
        [] \<Rightarrow> None
      | c # cs \<Rightarrow>
          if c = CHR ''['' then
            (case skip_ws cs of
               [] \<Rightarrow> None
             | c1 # cs1 \<Rightarrow>
                 if c1 = CHR '']'' then Some (JArr [], cs1)
                 else (case parse_elems n cs of
                         None \<Rightarrow> None
                       | Some (vs, r) \<Rightarrow> Some (JArr vs, r)))
          else if c = CHR ''{'' then
            (case skip_ws cs of
               [] \<Rightarrow> None
             | c1 # cs1 \<Rightarrow>
                 if c1 = CHR ''}'' then Some (JObj [], cs1)
                 else (case parse_members n cs of
                         None \<Rightarrow> None
                       | Some (ms, r) \<Rightarrow> Some (JObj ms, r)))
          else if c = dquote then
            (case parse_chars cs of
               None \<Rightarrow> None
             | Some (str, r) \<Rightarrow> Some (JStr str, r))
          else if take 4 (c # cs) = ''null'' then Some (JNull, drop 4 (c # cs))
          else if take 4 (c # cs) = ''true'' then Some (JBool True, drop 4 (c # cs))
          else if take 5 (c # cs) = ''false'' then Some (JBool False, drop 5 (c # cs))
          else None)"
| "parse_elems 0 s = None"
| "parse_elems (Suc n) s =
     (case parse_value n s of
        None \<Rightarrow> None
      | Some (v, r) \<Rightarrow>
          (case skip_ws r of
             [] \<Rightarrow> None
           | c # cs \<Rightarrow>
               if c = CHR '','' then
                 (case parse_elems n cs of
                    None \<Rightarrow> None
                  | Some (vs, r1) \<Rightarrow> Some (v # vs, r1))
               else if c = CHR '']'' then Some ([v], cs)
               else None))"
| "parse_members 0 s = None"
| "parse_members (Suc n) s =
     (case skip_ws s of
        [] \<Rightarrow> None
      | q # s1 \<Rightarrow>
          if q \<noteq> dquote then None
          else
            (case parse_chars s1 of
               None \<Rightarrow> None
             | Some (k, r0) \<Rightarrow>
                 (case skip_ws r0 of
                    [] \<Rightarrow> None
                  | col # r1 \<Rightarrow>
                      if col \<noteq> CHR '':'' then None
                      else
                        (case parse_value n r1 of
                           None \<Rightarrow> None
                         | Some (v, r) \<Rightarrow>
                             (case skip_ws r of
                                [] \<Rightarrow> None
                              | c # cs \<Rightarrow>
                                  if c = CHR '','' then
                                    (case parse_members n cs of
                                       None \<Rightarrow> None
                                     | Some (ms, r2) \<Rightarrow> Some ((k, v) # ms, r2))
                                  else if c = CHR ''}'' then Some ([(k, v)], cs)
                                  else None)))))"

definition JSON_parse :: "string \<Rightarrow> json option" where
  "JSON_parse s =
     (case parse_value (Suc (length s)) s of
        None \<Rightarrow> None
      | Some (v, r) \<Rightarrow> if skip_ws r = [] then Some v else None)"


section \<open>Entry ids\<close>

type_synonym id = string

datatype error =
    TypeError
  | ReferenceError string
  | SyntaxError
  | IOError string

text \<open>\<^verbatim>\<open>makeId\<close>: the options property is left out of the text when options is
  undefined (None), as JSON.stringify does for an undefined property value.\<close>

definition makeId :: "string \<Rightarrow> json option \<Rightarrow> id" where
  "makeId filename options =
     stringify (JObj ((''filename'', JStr filename)
                  # (case options of None \<Rightarrow> [] | Some v \<Rightarrow> [(''options'', v)])))"

text \<open>Reading a property of a parsed object: the last member of that name.\<close>

definition property :: "(string \<times> json) list \<Rightarrow> string \<Rightarrow> json option" where
  "property ms k = map_of (rev ms) k"

text \<open>\<^verbatim>\<open>getFilenameFromId\<close>. JSON.parse throws SyntaxError on a text that is not JSON.
  Every id in the cache comes from \<^verbatim>\<open>makeId\<close> with a string filename; for any other
  text the result would be null, undefined or not a string, which no caller can use as a
  path, and the model returns TypeError there.\<close>

definition getFilenameFromId :: "id \<Rightarrow> error + string" where
  "getFilenameFromId fid =
     (case JSON_parse fid of
        None \<Rightarrow> Inl SyntaxError
      | Some (JObj ms) \<Rightarrow>
          (case property ms ''filename'' of
             Some (JStr filename) \<Rightarrow> Inr filename
           | _ \<Rightarrow> Inl TypeError)
      | Some _ \<Rightarrow> Inl TypeError)"

section \<open>Paths: path.dirname and path.join of the POSIX path module\<close>

text \<open>\<^verbatim>\<open>path.dirname\<close> scans from the end down to index 1: it skips trailing
  slashes, then the last segment, and cuts the path at the slash before it. With no such
  slash the result is the root for a rooted path and the current directory otherwise.\<close>

definition path_dirname :: "string \<Rightarrow> string" where
  "path_dirname p =
     (if p = [] then ''.''
      else
        let hasRoot = (hd p = CHR ''/'');
            r = dropWhile (\<lambda>c. c \<noteq> CHR ''/'') (dropWhile (\<lambda>c. c = CHR ''/'') (rev (tl p)));
            end = length r
        in if end = 0 then (if hasRoot then ''/'' else ''.'')
           else if hasRoot \<and> end = 1 then ''//''
           else take end p)"

fun split_slash :: "string \<Rightarrow> string list" where
  "split_slash [] = [] # []"
| "split_slash (c # cs) =
     (if c = CHR ''/'' then [] # split_slash cs
      else (case split_slash cs of
              [] \<Rightarrow> [c] # []
            | s # ss \<Rightarrow> (c # s) # ss))"

text \<open>normalizeString: empty and \<^verbatim>\<open>.\<close> segments are dropped, \<^verbatim>\<open>..\<close> removes the
  segment before it, or is kept when there is none to remove and the path is relative.
  The second argument is the result so far, last segment first.\<close>

fun normalize_segments :: "bool \<Rightarrow> string list \<Rightarrow> string list \<Rightarrow> string list" where
  "normalize_segments allowAboveRoot acc [] = rev acc"
| "normalize_segments allowAboveRoot acc (seg # segs) =
     (if seg = [] \<or> seg = ''.'' then normalize_segments allowAboveRoot acc segs
      else if seg = ''..'' then
        (case acc of
           [] \<Rightarrow> normalize_segments allowAboveRoot (if allowAboveRoot then [''..''] else []) segs
         | lastSeg # below \<Rightarrow>
             if lastSeg = ''..''
             then normalize_segments allowAboveRoot
                    (if allowAboveRoot then ''..'' # acc else acc) segs
             else normalize_segments allowAboveRoot below segs)
      else normalize_segments allowAboveRoot (seg # acc) segs)"

fun join_slash :: "string list \<Rightarrow> string" where
  "join_slash [] = []"
| "join_slash [s] = s"
| "join_slash (s # ss) = s @ CHR ''/'' # join_slash ss"

definition path_normalize :: "string \<Rightarrow> string" where
  "path_normalize p =
     (if p = [] then ''.''
      else
        let isAbsolute = (hd p = CHR ''/'');
            trailingSeparator = (last p = CHR ''/'');
            res = join_slash (normalize_segments (\<not> isAbsolute) [] (split_slash p))
        in if res = [] then (if isAbsolute then ''/'' else if trailingSeparator then ''./'' else ''.'')
           else (if isAbsolute then ''/'' else []) @ res @ (if trailingSeparator then ''/'' else []))"

definition path_join :: "string \<Rightarrow> string \<Rightarrow> string" where
  "path_join a b =
     (if a = [] \<and> b = [] then ''.''
      else if a = [] then path_normalize b
      else if b = [] then path_normalize a
      else path_normalize (a @ CHR ''/'' # b))"

section \<open>The cache state\<close>

text \<open>File content is what \<^verbatim>\<open>fs.readFile\<close> hands back: a Buffer of bytes when no
  encoding is given, a string otherwise. Both have a \<^verbatim>\<open>length\<close>; only the empty
  string is falsy, a Buffer is an object and always truthy.\<close>

datatype content = Buffer "8 word list" | Text string

fun contentLength :: "content \<Rightarrow> int" where
  "contentLength (Buffer bs) = int (length bs)"
| "contentLength (Text s) = int (length s)"

fun truthy :: "content \<Rightarrow> bool" where
  "truthy (Buffer bs) = True"
| "truthy (Text s) = (s \<noteq> [])"

text \<open>A folder tracker. The watcher is the handle \<^verbatim>\<open>fs.watch\<close> returned, numbered in
  the order of the calls; \<^verbatim>\<open>fileIds\<close> is the object used as a set of ids.\<close>

record folderInfo =
  watcher :: nat
  fileIds :: "id list"
  numFiles :: int

text \<open>The variables of one \<^verbatim>\<open>Cache\<close>, and what the file system has seen of it: the
  number of \<^verbatim>\<open>fs.watch\<close> calls, the handles whose \<^verbatim>\<open>close\<close> was called (in call
  order), and the number of reads handed to \<^verbatim>\<open>fs.readFile\<close> or
  \<^verbatim>\<open>fs.readFileSync\<close>. The two objects are the lists of their own properties in
  insertion order, one binding per key.\<close>

record cache =
  g_cacheSize :: int
  g_cacheSizeLimit :: int
  g_fileLRUList :: "id list"
  g_cachedFiles :: "(id \<times> content) list"
  g_trackedFolders :: "(string \<times> folderInfo) list"
  g_numTrackedFolders :: int
  g_checkForFileChanges :: bool
  fs_watches :: nat
  fs_closed :: "nat list"
  fs_reads :: nat

type_synonym 'a outcome = "(error + 'a) \<times> cache"

text \<open>The constructor: \<^verbatim>\<open>options.cacheSizeLimit || 64 * 1024 * 1024\<close> takes the default
  for an absent and for a zero limit.\<close>

definition Cache :: "int option \<Rightarrow> bool option \<Rightarrow> cache" where
  "Cache cacheSizeLimit checkForFileChanges =
     \<lparr> g_cacheSize = 0,
       g_cacheSizeLimit =
         (case cacheSizeLimit of
            None \<Rightarrow> 64 * 1024 * 1024
          | Some n \<Rightarrow> if n = 0 then 64 * 1024 * 1024 else n),
       g_fileLRUList = [],
       g_cachedFiles = [],
       g_trackedFolders = [],
       g_numTrackedFolders = 0,
       g_checkForFileChanges = (case checkForFileChanges of None \<Rightarrow> True | Some b \<Rightarrow> b),
       fs_watches = 0,
       fs_closed = [],
       fs_reads = 0 \<rparr>"


section \<open>Plain objects used as maps\<close>

text \<open>\<^verbatim>\<open>g_trackedFolders\<close> and \<^verbatim>\<open>g_cachedFiles\<close> are object literals, so a read
  \<^verbatim>\<open>obj[key]\<close> that finds no own property goes on to Object.prototype. Under the names
  below it finds a member there (a function, or the prototype itself under
  \<^verbatim>\<open>__proto__\<close>): a value that is neither undefined nor falsy and has no property
  \<^verbatim>\<open>fileIds\<close>. Under every other name the read gives undefined.\<close>

definition objectPrototypeMembers :: "string list" where
  "objectPrototypeMembers =
     [''constructor'', ''__defineGetter__'', ''__defineSetter__'', ''hasOwnProperty'',
      ''__lookupGetter__'', ''__lookupSetter__'', ''isPrototypeOf'', ''propertyIsEnumerable'',
      ''toString'', ''valueOf'', ''__proto__'', ''toLocaleString'']"

datatype 'a property = Own 'a | Inherited | Undefined

definition getProperty :: "(string \<times> 'a) list \<Rightarrow> string \<Rightarrow> 'a property" where
  "getProperty obj key =
     (case map_of obj key of
        Some v \<Rightarrow> Own v
      | None \<Rightarrow> if key \<in> set objectPrototypeMembers then Inherited else Undefined)"

text \<open>The order in which \<^verbatim>\<open>for (key in obj)\<close> visits the own properties: the keys
  that are array indices (canonical decimal numerals below 4294967295) in ascending
  order first, then the other keys in insertion order.\<close>

definition digitsValue :: "string \<Rightarrow> nat" where
  "digitsValue s = foldl (\<lambda>n c. 10 * n + ((of_char c :: nat) - 48)) 0 s"

definition arrayIndex :: "string \<Rightarrow> nat option" where
  "arrayIndex s =
     (if s \<noteq> []
         \<and> list_all (\<lambda>c. 48 \<le> (of_char c :: nat) \<and> (of_char c :: nat) \<le> 57) s
         \<and> (if hd s = CHR ''0'' then s = ''0'' else True)
         \<and> digitsValue s < 4294967295
      then Some (digitsValue s) else None)"

definition forInOrder :: "(string \<times> 'a) list \<Rightarrow> (string \<times> 'a) list" where
  "forInOrder obj =
     sort_key (\<lambda>entry. case arrayIndex (fst entry) of Some n \<Rightarrow> n | None \<Rightarrow> 0)
       (filter (\<lambda>entry. arrayIndex (fst entry) \<noteq> None) obj)
     @ filter (\<lambda>entry. arrayIndex (fst entry) = None) obj"

section \<open>Eviction\<close>

text \<open>The block of \<^verbatim>\<open>removeById\<close> under \<^verbatim>\<open>if (g_checkForFileChanges)\<close>: the id
  leaves the tracker of its folder, and the tracker that loses its last id has its
  watcher closed and is deleted. The two \<^verbatim>\<open>console.error\<close> branches change
  nothing. For a folder named like a member of Object.prototype the read of
  \<^verbatim>\<open>g_trackedFolders[dirname]\<close> finds that member, \<^verbatim>\<open>!folderInfo\<close> is false, and
  \<^verbatim>\<open>folderInfo.fileIds[id]\<close> throws TypeError, \<^verbatim>\<open>folderInfo.fileIds\<close> being
  undefined. An id begins with a brace, so \<^verbatim>\<open>fileIds[id]\<close> finds own properties
  only.\<close>

definition untrackFolder :: "id \<Rightarrow> string \<Rightarrow> cache \<Rightarrow> unit outcome" where
  "untrackFolder fid filename st =
     (if g_checkForFileChanges st then
        (let dirname = path_dirname filename in
         case getProperty (g_trackedFolders st) dirname of
           Undefined \<Rightarrow> (Inr (), st)
         | Inherited \<Rightarrow> (Inl TypeError, st)
         | Own folderInfo \<Rightarrow>
             if fid \<notin> set (fileIds folderInfo) then (Inr (), st)
             else
               let folderInfo1 =
                     folderInfo\<lparr> fileIds := removeAll fid (fileIds folderInfo),
                                 numFiles := numFiles folderInfo - 1 \<rparr>
               in if numFiles folderInfo1 = 0 then
                    (Inr (),
                     st\<lparr> fs_closed := fs_closed st @ [watcher folderInfo1],
                         g_trackedFolders := AList.delete dirname (g_trackedFolders st),
                         g_numTrackedFolders := g_numTrackedFolders st - 1 \<rparr>)
                  else
                    (Inr (),
                     st\<lparr> g_trackedFolders :=
                           AList.update dirname folderInfo1 (g_trackedFolders st) \<rparr>))
      else (Inr (), st))"

text \<open>The body of the \<^verbatim>\<open>forEach\<close> of \<^verbatim>\<open>removeById\<close>, for one id. Reading
  \<^verbatim>\<open>contents.length\<close> of an id that is not cached throws TypeError, since
  \<^verbatim>\<open>contents\<close> is undefined (an id begins with a brace and names no member of
  Object.prototype). The next statements read \<^verbatim>\<open>g_fileLRUList[id]\<close>, the property of
  the array named by the id: the id is neither an index nor \<^verbatim>\<open>length\<close> nor the name
  of an array method, the property is undefined, \<^verbatim>\<open>index >= 0\<close> is false and nothing
  is spliced out of the list.\<close>

definition removeById_each :: "id \<Rightarrow> cache \<Rightarrow> unit outcome" where
  "removeById_each fid st =
     (case map_of (g_cachedFiles st) fid of
        None \<Rightarrow> (Inl TypeError, st)
      | Some contents \<Rightarrow>
          let st1 = st\<lparr> g_cacheSize :=
                          (if contentLength contents \<noteq> 0
                           then g_cacheSize st - contentLength contents
                           else g_cacheSize st),
                        g_cachedFiles := AList.delete fid (g_cachedFiles st) \<rparr>
          in (case getFilenameFromId fid of
                Inl e \<Rightarrow> (Inl e, st1)
              | Inr filename \<Rightarrow> untrackFolder fid filename st1))"

fun removeById :: "id list \<Rightarrow> cache \<Rightarrow> unit outcome" where
  "removeById [] st = (Inr (), st)"
| "removeById (fid # idsToRemove) st =
     (case removeById_each fid st of
        (Inl e, st1) \<Rightarrow> (Inl e, st1)
      | (Inr u, st1) \<Rightarrow> removeById idsToRemove st1)"

text \<open>The \<^verbatim>\<open>while\<close> loop of \<^verbatim>\<open>makeSpaceInCache\<close>. \<^verbatim>\<open>splice(0, 1)\<close> takes the
  head off the list and returns it as a list of at most one id. On an empty list with the
  size still above the target the loop runs forever: the value None.\<close>

partial_function (option) makeSpaceLoop :: "int \<Rightarrow> cache \<Rightarrow> (unit outcome) option" where
  "makeSpaceLoop targetSize st =
     (if g_cacheSize st > targetSize then
        (case removeById (take 1 (g_fileLRUList st))
                (st\<lparr> g_fileLRUList := drop 1 (g_fileLRUList st) \<rparr>) of
           (Inl e, st1) \<Rightarrow> Some (Inl e, st1)
         | (Inr u, st1) \<Rightarrow> makeSpaceLoop targetSize st1)
      else Some (Inr (), st))"

definition makeSpaceInCache :: "int \<Rightarrow> cache \<Rightarrow> (unit outcome) option" where
  "makeSpaceInCache spaceNeeded st =
     makeSpaceLoop (max 0 (g_cacheSizeLimit st - spaceNeeded)) st"

section \<open>Invalidation from the folder watch\<close>

text \<open>The loop of \<^verbatim>\<open>removeByFilename\<close> over the ids of the content map, which are
  visited in insertion order (no id is an array index), and the list it collects.\<close>

fun idsByFilename :: "string \<Rightarrow> id list \<Rightarrow> error + id list" where
  "idsByFilename filename [] = Inr []"
| "idsByFilename filename (fid # fids) =
     (case getFilenameFromId fid of
        Inl e \<Rightarrow> Inl e
      | Inr name \<Rightarrow>
          (case idsByFilename filename fids of
             Inl e \<Rightarrow> Inl e
           | Inr idsToRemove \<Rightarrow>
               Inr (if name = filename then fid # idsToRemove else idsToRemove)))"

definition removeByFilename :: "string \<Rightarrow> cache \<Rightarrow> unit outcome" where
  "removeByFilename filename st =
     (case idsByFilename filename (map fst (g_cachedFiles st)) of
        Inl e \<Rightarrow> (Inl e, st)
      | Inr idsToRemove \<Rightarrow> removeById idsToRemove st)"

text \<open>\<^verbatim>\<open>removeByFolder\<close>: the loop body reads \<^verbatim>\<open>g_delim\<close>, which is declared
  nowhere, so its first iteration throws ReferenceError. With nothing cached the body
  does not run and \<^verbatim>\<open>removeById\<close> gets the empty list.\<close>

definition removeByFolder :: "string \<Rightarrow> cache \<Rightarrow> unit outcome" where
  "removeByFolder folder st =
     (case g_cachedFiles st of
        [] \<Rightarrow> removeById [] st
      | entry # entries \<Rightarrow> (Inl (ReferenceError ''g_delim''), st))"

text \<open>The function handed to \<^verbatim>\<open>fs.watch\<close> for a folder. The filename is null or
  undefined (None) or a string; the empty string is falsy.\<close>

definition watchCallback :: "string \<Rightarrow> string option \<Rightarrow> cache \<Rightarrow> unit outcome" where
  "watchCallback dirname filename st =
     (case filename of
        None \<Rightarrow> removeByFolder dirname st
      | Some name \<Rightarrow>
          if name \<noteq> [] then removeByFilename (path_join dirname name) st
          else removeByFolder dirname st)"

section \<open>Insertion and lookup\<close>

text \<open>\<^verbatim>\<open>trackFolder\<close>. \<^verbatim>\<open>fs.watch\<close> is taken to succeed; it returns the next
  handle. For a folder named like a member of Object.prototype the read of
  \<^verbatim>\<open>g_trackedFolders[dirname]\<close> is not undefined, no watch is made, and
  \<^verbatim>\<open>folderInfo.fileIds[id]\<close> throws TypeError.\<close>

definition trackFolder :: "id \<Rightarrow> cache \<Rightarrow> unit outcome" where
  "trackFolder fid st =
     (if \<not> g_checkForFileChanges st then (Inr (), st)
      else
        (case getFilenameFromId fid of
           Inl e \<Rightarrow> (Inl e, st)
         | Inr filename \<Rightarrow>
             let dirname = path_dirname filename;
                 found = getProperty (g_trackedFolders st) dirname
             in case found of
                  Inherited \<Rightarrow> (Inl TypeError, st)
                | _ \<Rightarrow>
                    let folderInfo = (case found of
                                        Own tracked \<Rightarrow> tracked
                                      | _ \<Rightarrow> \<lparr> watcher = fs_watches st, fileIds = [], numFiles = 0 \<rparr>);
                        st1 = (case found of
                                 Own tracked \<Rightarrow> st
                               | _ \<Rightarrow>
                                   st\<lparr> g_trackedFolders := g_trackedFolders st @ [(dirname, folderInfo)],
                                       g_numTrackedFolders := g_numTrackedFolders st + 1,
                                       fs_watches := Suc (fs_watches st) \<rparr>)
                    in if fid \<notin> set (fileIds folderInfo) then
                         (Inr (),
                          st1\<lparr> g_trackedFolders :=
                                 AList.update dirname
                                   (folderInfo\<lparr> fileIds := fileIds folderInfo @ [fid],
                                                numFiles := numFiles folderInfo + 1 \<rparr>)
                                   (g_trackedFolders st1) \<rparr>)
                       else (Inr (), st1)))"

text \<open>\<^verbatim>\<open>getContentFromCache\<close>: on a hit the first occurrence of the id moves to the
  end of the list; with the id missing from the list only a message is logged.\<close>

definition getContentFromCache :: "id \<Rightarrow> cache \<Rightarrow> content option \<times> cache" where
  "getContentFromCache fid st =
     (case map_of (g_cachedFiles st) fid of
        None \<Rightarrow> (None, st)
      | Some content \<Rightarrow>
          if fid \<in> set (g_fileLRUList st)
          then (Some content, st\<lparr> g_fileLRUList := remove1 fid (g_fileLRUList st) @ [fid] \<rparr>)
          else (Some content, st))"

text \<open>\<^verbatim>\<open>cacheContent\<close>. The else branch builds its log message from
  \<^verbatim>\<open>filename\<close>, which is not a variable in the scope of this function: evaluating the
  argument of \<^verbatim>\<open>debug\<close> throws ReferenceError.\<close>

definition cacheContent :: "id \<Rightarrow> content \<Rightarrow> cache \<Rightarrow> (unit outcome) option" where
  "cacheContent fid data st =
     (if contentLength data \<le> g_cacheSizeLimit st then
        (case makeSpaceInCache (contentLength data) st of
           None \<Rightarrow> None
         | Some (Inl e, st1) \<Rightarrow> Some (Inl e, st1)
         | Some (Inr u, st1) \<Rightarrow>
             Some (trackFolder fid
                     (st1\<lparr> g_cachedFiles := AList.update fid data (g_cachedFiles st1),
                           g_cacheSize := g_cacheSize st1 + contentLength data,
                           g_fileLRUList := g_fileLRUList st1 @ [fid] \<rparr>)))
      else Some (Inl (ReferenceError ''filename''), st))"

section \<open>The public operations\<close>

text \<open>\<^verbatim>\<open>readFile\<close> up to its return: on a hit the content is scheduled for the
  callback (Inl), on a miss \<^verbatim>\<open>fs.readFile\<close> is started for the id (Inr).\<close>

definition readFile :: "string \<Rightarrow> json option \<Rightarrow> cache \<Rightarrow> (content + id) \<times> cache" where
  "readFile filename options st =
     (let fid = makeId filename options in
      case getContentFromCache fid st of
        (Some content, st1) \<Rightarrow> (Inl content, st1)
      | (None, st1) \<Rightarrow> (Inr fid, st1\<lparr> fs_reads := Suc (fs_reads st1) \<rparr>))"

text \<open>The function \<^verbatim>\<open>readFile\<close> hands to \<^verbatim>\<open>fs.readFile\<close>, run when the read is
  done with \<^verbatim>\<open>(err, data)\<close>. The value is what the caller's callback receives; an
  exception leaves before the callback is called.\<close>

definition readFile_done :: "id \<Rightarrow> error + content \<Rightarrow> cache \<Rightarrow> ((error + content) outcome) option" where
  "readFile_done fid result st =
     (case result of
        Inl err \<Rightarrow> Some (Inr (Inl err), st)
      | Inr data \<Rightarrow>
          (case cacheContent fid data st of
             None \<Rightarrow> None
           | Some (Inl e, st1) \<Rightarrow> Some (Inl e, st1)
           | Some (Inr u, st1) \<Rightarrow> Some (Inr (Inr data), st1)))"

text \<open>\<^verbatim>\<open>readFileSync\<close>; the third argument is what \<^verbatim>\<open>fs.readFileSync\<close> returns or
  throws for this file if it is called. The test \<^verbatim>\<open>!content\<close> holds for undefined and
  for the empty string.\<close>

definition readFileSync ::
  "string \<Rightarrow> json option \<Rightarrow> error + content \<Rightarrow> cache \<Rightarrow> (content outcome) option" where
  "readFileSync filename options onDisk st =
     (let fid = makeId filename options;
          (content, st1) = getContentFromCache fid st;
          st2 = st1\<lparr> fs_reads := Suc (fs_reads st1) \<rparr>;
          reread = (case onDisk of
                      Inl err \<Rightarrow> Some (Inl err, st2)
                    | Inr data \<Rightarrow>
                        (case cacheContent fid data st2 of
                           None \<Rightarrow> None
                         | Some (Inl e, st3) \<Rightarrow> Some (Inl e, st3)
                         | Some (Inr u, st3) \<Rightarrow> Some (Inr data, st3)))
      in case content of
           None \<Rightarrow> reread
         | Some cached \<Rightarrow> if truthy cached then Some (Inr cached, st1) else reread)"

text \<open>\<^verbatim>\<open>clear\<close> closes the watchers in the order of the \<^verbatim>\<open>for\<close>-\<^verbatim>\<open>in\<close>
  loop.\<close>

definition clear :: "cache \<Rightarrow> cache" where
  "clear st =
     st\<lparr> fs_closed :=
           fs_closed st @ map (\<lambda>entry. watcher (snd entry)) (forInOrder (g_trackedFolders st)),
         g_trackedFolders := [],
         g_numTrackedFolders := 0,
         g_cachedFiles := [],
         g_cacheSize := 0,
         g_fileLRUList := [] \<rparr>"

definition setCacheSizeLimit :: "int \<Rightarrow> cache \<Rightarrow> (unit outcome) option" where
  "setCacheSizeLimit numBytes st =
     makeSpaceInCache 0 (st\<lparr> g_cacheSizeLimit := max 0 numBytes \<rparr>)"


section \<open>Histories of public operations\<close>

text \<open>What can happen to a cache from outside: a call of one of its methods, the end of
  a read that \<^verbatim>\<open>readFile\<close> started, a notification from a folder watch. The state
  after an operation that throws is the state the exception left behind; an operation
  that does not return has no state after it.\<close>

datatype event =
    ReadFile string "json option"
  | ReadFileDone string "json option" "error + content"
  | ReadFileSync string "json option" "error + content"
  | WatchEvent string "string option"
  | SetCacheSizeLimit int
  | Clear

fun step :: "event \<Rightarrow> cache \<Rightarrow> cache option" where
  "step (ReadFile filename options) st = Some (snd (readFile filename options st))"
| "step (ReadFileDone filename options result) st =
     map_option snd (readFile_done (makeId filename options) result st)"
| "step (ReadFileSync filename options onDisk) st =
     map_option snd (readFileSync filename options onDisk st)"
| "step (WatchEvent dirname filename) st = Some (snd (watchCallback dirname filename st))"
| "step (SetCacheSizeLimit numBytes) st = map_option snd (setCacheSizeLimit numBytes st)"
| "step Clear st = Some (clear st)"

fun run :: "event list \<Rightarrow> cache \<Rightarrow> cache option" where
  "run [] st = Some st"
| "run (e # es) st = (case step e st of None \<Rightarrow> None | Some st1 \<Rightarrow> run es st1)"


section \<open>The properties\<close>

text \<open>The folder trackers are in order: one tracker per folder name, each with a
  counter equal to the number of its ids and at least one id, the counter of trackers
  equal to their number, and every handle that \<^verbatim>\<open>fs.watch\<close> has returned either held
  by exactly one tracker or closed exactly once.\<close>

definition tracker_ok :: "folderInfo \<Rightarrow> bool" where
  "tracker_ok folderInfo \<longleftrightarrow>
     numFiles folderInfo = int (length (fileIds folderInfo))
     \<and> distinct (fileIds folderInfo)
     \<and> fileIds folderInfo \<noteq> []"

definition trackers_ok :: "cache \<Rightarrow> bool" where
  "trackers_ok st \<longleftrightarrow>
     distinct (map fst (g_trackedFolders st))
     \<and> list_all (\<lambda>entry. tracker_ok (snd entry)) (g_trackedFolders st)
     \<and> g_numTrackedFolders st = int (length (g_trackedFolders st))
     \<and> mset (map (\<lambda>entry. watcher (snd entry)) (g_trackedFolders st)) + mset (fs_closed st)
         = mset [0..<fs_watches st]"


text \<open>The content map has one binding per id, and every id in it is the id of some
  file name.\<close>

definition keys_ok :: "cache \<Rightarrow> bool" where
  "keys_ok st \<longleftrightarrow>
     distinct (map fst (g_cachedFiles st))
     \<and> list_all (\<lambda>entry. \<not> isl (getFilenameFromId (fst entry))) (g_cachedFiles st)"

text \<open>A property of the state that each elementary change of an operation keeps:
  the eviction of one id, one round of the loop of \<^verbatim>\<open>makeSpaceInCache\<close>, the move of
  an id to the end of the list, the updates of the limit and of the read counter, the
  insertion of an entry followed by \<^verbatim>\<open>trackFolder\<close>, and \<^verbatim>\<open>clear\<close>.\<close>

definition preserved :: "(cache \<Rightarrow> bool) \<Rightarrow> bool" where
  "preserved Q \<longleftrightarrow>
     (\<forall>fid st. Q st \<longrightarrow> Q (snd (removeById_each fid st)))
     \<and> (\<forall>st. Q st \<longrightarrow>
           Q (snd (removeById (take 1 (g_fileLRUList st))
                     (st\<lparr> g_fileLRUList := drop 1 (g_fileLRUList st) \<rparr>))))
     \<and> (\<forall>st fid. Q st \<longrightarrow> Q (st\<lparr> g_fileLRUList := remove1 fid (g_fileLRUList st) @ [fid] \<rparr>))
     \<and> (\<forall>st n. Q st \<longrightarrow> Q (st\<lparr> fs_reads := n \<rparr>))
     \<and> (\<forall>st m. Q st \<longrightarrow> Q (st\<lparr> g_cacheSizeLimit := m \<rparr>))
     \<and> (\<forall>filename options data st. Q st \<longrightarrow>
           Q (snd (trackFolder (makeId filename options)
                 (st\<lparr> g_cachedFiles := AList.update (makeId filename options) data (g_cachedFiles st),
                      g_cacheSize := g_cacheSize st + contentLength data,
                      g_fileLRUList := g_fileLRUList st @ [makeId filename options] \<rparr>))))
     \<and> (\<forall>st. Q st \<longrightarrow> Q (clear st))"

section \<open>Scenarios\<close>

text \<open>States that short histories of operations lead to; the theorems below show for
  each the history that produces it. A read without options yields a Buffer, a read with
  an encoding a string.\<close>

abbreviation utf8 :: "json option" where
  "utf8 \<equiv> Some (JStr ''utf8'')"

definition scenario_A_B :: cache where
  "scenario_A_B =
     \<lparr> g_cacheSize = 9, g_cacheSizeLimit = 9,
       g_fileLRUList = [makeId ''/d/A'' utf8, makeId ''/d/B'' utf8],
       g_cachedFiles = [(makeId ''/d/A'' utf8, Text ''aaaaa''), (makeId ''/d/B'' utf8, Text ''bbbb'')],
       g_trackedFolders =
         [(''/d'', \<lparr> watcher = 0, fileIds = [makeId ''/d/A'' utf8, makeId ''/d/B'' utf8], numFiles = 2 \<rparr>)],
       g_numTrackedFolders = 1, g_checkForFileChanges = True,
       fs_watches = 1, fs_closed = [], fs_reads = 2 \<rparr>"

definition scenario_two_folders :: cache where
  "scenario_two_folders =
     \<lparr> g_cacheSize = 9, g_cacheSizeLimit = 9,
       g_fileLRUList = [makeId ''/d/a'' utf8, makeId ''/e/b'' utf8],
       g_cachedFiles = [(makeId ''/d/a'' utf8, Text ''abcde''), (makeId ''/e/b'' utf8, Text ''abcd'')],
       g_trackedFolders =
         [(''/d'', \<lparr> watcher = 0, fileIds = [makeId ''/d/a'' utf8], numFiles = 1 \<rparr>),
          (''/e'', \<lparr> watcher = 1, fileIds = [makeId ''/e/b'' utf8], numFiles = 1 \<rparr>)],
       g_numTrackedFolders = 2, g_checkForFileChanges = True,
       fs_watches = 2, fs_closed = [], fs_reads = 2 \<rparr>"

definition scenario_two_options :: cache where
  "scenario_two_options =
     \<lparr> g_cacheSize = 8, g_cacheSizeLimit = 64 * 1024 * 1024,
       g_fileLRUList = [makeId ''/d/a'' None, makeId ''/d/a'' utf8, makeId ''/d/b'' None],
       g_cachedFiles =
         [(makeId ''/d/a'' None, Buffer [1, 2, 3]),
          (makeId ''/d/a'' utf8, Text ''abc''),
          (makeId ''/d/b'' None, Buffer [4, 5])],
       g_trackedFolders =
         [(''/d'', \<lparr> watcher = 0,
                     fileIds = [makeId ''/d/a'' None, makeId ''/d/a'' utf8, makeId ''/d/b'' None],
                     numFiles = 3 \<rparr>)],
       g_numTrackedFolders = 1, g_checkForFileChanges = True,
       fs_watches = 1, fs_closed = [], fs_reads = 3 \<rparr>"



definition scenario_double_counted :: cache where
  "scenario_double_counted =
     \<lparr> g_cacheSize = 6, g_cacheSizeLimit = 10,
       g_fileLRUList = [makeId ''/d/a'' None, makeId ''/d/a'' None],
       g_cachedFiles = [(makeId ''/d/a'' None, Buffer [1, 2, 3])],
       g_trackedFolders =
         [(''/d'', \<lparr> watcher = 0, fileIds = [makeId ''/d/a'' None], numFiles = 1 \<rparr>)],
       g_numTrackedFolders = 1, g_checkForFileChanges = True,
       fs_watches = 1, fs_closed = [], fs_reads = 2 \<rparr>"

definition scenario_one_file :: cache where
  "scenario_one_file =
     \<lparr> g_cacheSize = 5, g_cacheSizeLimit = 9,
       g_fileLRUList = [makeId ''/d/a'' None],
       g_cachedFiles = [(makeId ''/d/a'' None, Buffer [1, 2, 3, 4, 5])],
       g_trackedFolders =
         [(''/d'', \<lparr> watcher = 0, fileIds = [makeId ''/d/a'' None], numFiles = 1 \<rparr>)],
       g_numTrackedFolders = 1, g_checkForFileChanges = True,
       fs_watches = 1, fs_closed = [], fs_reads = 1 \<rparr>"

definition scenario_invalidated :: cache where
  "scenario_invalidated =
     \<lparr> g_cacheSize = 0, g_cacheSizeLimit = 9,
       g_fileLRUList = [makeId ''/d/a'' None],
       g_cachedFiles = [],
       g_trackedFolders = [],
       g_numTrackedFolders = 0, g_checkForFileChanges = True,
       fs_watches = 1, fs_closed = [0], fs_reads = 1 \<rparr>"

definition scenario_stale_head :: cache where
  "scenario_stale_head =
     \<lparr> g_cacheSize = 3, g_cacheSizeLimit = 5,
       g_fileLRUList = [makeId ''/d/a'' None, makeId ''/d/b'' None],
       g_cachedFiles = [(makeId ''/d/b'' None, Buffer [4, 5, 6])],
       g_trackedFolders =
         [(''/d'', \<lparr> watcher = 1, fileIds = [makeId ''/d/b'' None], numFiles = 1 \<rparr>)],
       g_numTrackedFolders = 1, g_checkForFileChanges = True,
       fs_watches = 2, fs_closed = [0], fs_reads = 2 \<rparr>"

definition scenario_empty_list :: cache where
  "scenario_empty_list =
     \<lparr> g_cacheSize = 3, g_cacheSizeLimit = 2,
       g_fileLRUList = [],
       g_cachedFiles = [],
       g_trackedFolders = [],
       g_numTrackedFolders = 0, g_checkForFileChanges = True,
       fs_watches = 1, fs_closed = [0], fs_reads = 2 \<rparr>"

definition scenario_prototype_folder :: cache where
  "scenario_prototype_folder =
     \<lparr> g_cacheSize = 9, g_cacheSizeLimit = 64 * 1024 * 1024,
       g_fileLRUList =
         [makeId ''constructor/a'' None, makeId ''constructor/a'' utf8, makeId ''./constructor/a'' None],
       g_cachedFiles =
         [(makeId ''constructor/a'' None, Buffer [1, 2, 3]),
          (makeId ''constructor/a'' utf8, Text ''abc''),
          (makeId ''./constructor/a'' None, Buffer [1, 2, 3])],
       g_trackedFolders =
         [(''./constructor'', \<lparr> watcher = 0, fileIds = [makeId ''./constructor/a'' None], numFiles = 1 \<rparr>)],
       g_numTrackedFolders = 1, g_checkForFileChanges = True,
       fs_watches = 1, fs_closed = [], fs_reads = 3 \<rparr>"

section \<open>Round trip of the JSON text\<close>

lemma hexval_hexdigit: "n < 16 \<Longrightarrow> hexval (hexdigit n) = Some n"
  by (auto simp: hexval_def hexdigit_def Let_def)

lemma parse_chars_escape:
  "parse_chars (escape_char c @ rest) = cons_result c (parse_chars rest)"
proof -
  consider (ctl) "c \<noteq> dquote" "c \<noteq> bslash" "c \<noteq> CHR 0x08" "c \<noteq> CHR 0x09" "c \<noteq> CHR 0x0A"
      "c \<noteq> CHR 0x0C" "c \<noteq> CHR 0x0D" "(of_char c :: nat) < 32"
    | (other) "\<not> (c \<noteq> dquote \<and> c \<noteq> bslash \<and> c \<noteq> CHR 0x08 \<and> c \<noteq> CHR 0x09 \<and> c \<noteq> CHR 0x0A
      \<and> c \<noteq> CHR 0x0C \<and> c \<noteq> CHR 0x0D \<and> (of_char c :: nat) < 32)"
    by blast
  then show ?thesis
  proof cases
    case ctl
    have d: "(of_char c :: nat) div 16 < 16" "(of_char c :: nat) mod 16 < 16"
      using ctl(8) by auto
    have z: "hexval CHR ''0'' = Some 0" by (simp add: hexval_def)
    show ?thesis
      using ctl
      by (simp add: escape_char_def hexval_hexdigit[OF d(1)] hexval_hexdigit[OF d(2)] z
          dquote_def bslash_def)
  next
    case other
    then show ?thesis
      by (auto simp: escape_char_def dquote_def bslash_def unescape_def)
  qed
qed

lemma parse_chars_quoted:
  "parse_chars (concat (map escape_char s) @ dquote # rest) = Some (s, rest)"
  by (induction s) (simp_all add: parse_chars_escape cons_result_def)


lemma stringify_first:
  "\<exists>c cs. stringify v = c # cs \<and> \<not> is_ws c \<and> c \<noteq> CHR '']'' \<and> c \<noteq> CHR ''}''"
  by (cases v) (auto simp: quote_def is_ws_def dquote_def)

lemma stringify_elems_first:
  "vs \<noteq> [] \<Longrightarrow> \<exists>c cs. stringify_elems vs = c # cs \<and> \<not> is_ws c \<and> c \<noteq> CHR '']''"
proof (cases vs)
  case Nil
  then show "vs \<noteq> [] \<Longrightarrow> ?thesis" by simp
next
  case (Cons v vs')
  obtain c cs where "stringify v = c # cs" "\<not> is_ws c" "c \<noteq> CHR '']''"
    using stringify_first by blast
  then show ?thesis using Cons by simp
qed

lemma stringify_members_first:
  "ms \<noteq> [] \<Longrightarrow> \<exists>cs. stringify_members ms = dquote # cs"
  by (cases ms) (auto simp: quote_def)

lemma parse_roundtrip:
  "length (stringify v) \<le> n \<Longrightarrow> parse_value n (stringify v @ r) = Some (v, r)"
  "vs \<noteq> [] \<Longrightarrow> length (stringify_elems vs) < n \<Longrightarrow>
     parse_elems n (stringify_elems vs @ CHR '']'' # r) = Some (vs, r)"
  "ms \<noteq> [] \<Longrightarrow> length (stringify_members ms) < n \<Longrightarrow>
     parse_members n (stringify_members ms @ CHR ''}'' # r) = Some (ms, r)"
proof (induction v and vs and ms arbitrary: n r and n r and n r
    rule: stringify_stringify_elems_stringify_members.induct)
  case 1
  then obtain m where "n = Suc m" by (cases n) auto
  then show ?case by (simp add: skip_ws_def is_ws_def dquote_def)
next
  case (2 b)
  then obtain m where "n = Suc m" by (cases n) (auto split: if_splits)
  then show ?case by (cases b) (simp_all add: skip_ws_def is_ws_def dquote_def)
next
  case (3 s)
  then obtain m where "n = Suc m" by (cases n) (auto simp: quote_def)
  then show ?case
    using parse_chars_quoted[of s r]
    by (simp add: quote_def skip_ws_def is_ws_def dquote_def)
next
  case (4 vs)
  then obtain m where n: "n = Suc m" and m: "length (stringify_elems vs) < m"
    by (cases n) auto
  show ?case
  proof (cases "vs = []")
    case True
    then show ?thesis using n by (simp add: skip_ws_def is_ws_def)
  next
    case False
    then obtain c cs where c: "stringify_elems vs = c # cs" "\<not> is_ws c" "c \<noteq> CHR '']''"
      using stringify_elems_first by blast
    have "parse_elems m (stringify_elems vs @ CHR '']'' # r) = Some (vs, r)"
      using "4.IH"[OF False m] .
    then show ?thesis using n c
      by (simp add: skip_ws_def is_ws_def)
  qed
next
  case (5 ms)
  then obtain m where n: "n = Suc m" and m: "length (stringify_members ms) < m"
    by (cases n) auto
  show ?case
  proof (cases "ms = []")
    case True
    then show ?thesis using n by (simp add: skip_ws_def is_ws_def dquote_def)
  next
    case False
    then obtain cs where c: "stringify_members ms = dquote # cs"
      using stringify_members_first by blast
    have "parse_members m (stringify_members ms @ CHR ''}'' # r) = Some (ms, r)"
      using "5.IH"[OF False m] .
    then show ?thesis using n c
      by (simp add: skip_ws_def is_ws_def dquote_def)
  qed
next
  case 6
  then show ?case by simp
next
  case (7 v vs)
  then obtain m where n: "n = Suc m" by (cases n) auto
  show ?case
  proof (cases "vs = []")
    case True
    have "parse_value m (stringify v @ CHR '']'' # r) = Some (v, CHR '']'' # r)"
      using "7.prems" n True by (intro "7.IH"(1)) simp
    then show ?thesis using n True by (simp add: skip_ws_def is_ws_def)
  next
    case False
    have a: "parse_value m (stringify v @ CHR '','' # stringify_elems vs @ CHR '']'' # r)
        = Some (v, CHR '','' # stringify_elems vs @ CHR '']'' # r)"
      using "7.prems" n False by (intro "7.IH"(1)) simp
    have b: "parse_elems m (stringify_elems vs @ CHR '']'' # r) = Some (vs, r)"
      using "7.prems" n False by (intro "7.IH"(2)) simp_all
    show ?thesis using n False a b by (simp add: skip_ws_def is_ws_def)
  qed
next
  case 8
  then show ?case by simp
next
  case (9 m0 ms)
  then obtain m where n: "n = Suc m" by (cases n) auto
  have q: "parse_chars (concat (map escape_char (fst m0)) @ dquote # rest) = Some (fst m0, rest)" for rest
    by (rule parse_chars_quoted)
  show ?case
  proof (cases "ms = []")
    case True
    have "parse_value m (stringify (snd m0) @ CHR ''}'' # r) = Some (snd m0, CHR ''}'' # r)"
      using "9.prems" n True by (intro "9.IH"(1)) simp
    then show ?thesis using n True q
      by (simp add: skip_ws_def is_ws_def quote_def dquote_def)
  next
    case False
    have a: "parse_value m (stringify (snd m0) @ CHR '','' # stringify_members ms @ CHR ''}'' # r)
        = Some (snd m0, CHR '','' # stringify_members ms @ CHR ''}'' # r)"
      using "9.prems" n False by (intro "9.IH"(1)) simp
    have b: "parse_members m (stringify_members ms @ CHR ''}'' # r) = Some (ms, r)"
      using "9.prems" n False by (intro "9.IH"(2)) simp_all
    show ?thesis using n False a b q
      by (simp add: skip_ws_def is_ws_def quote_def dquote_def)
  qed
qed

lemma JSON_parse_stringify: "JSON_parse (stringify v) = Some v"
  using parse_roundtrip(1)[of v "Suc (length (stringify v))" "[]"]
  by (simp add: JSON_parse_def skip_ws_def)

lemma getFilenameFromId_makeId: "getFilenameFromId (makeId filename options) = Inr filename"
  unfolding getFilenameFromId_def makeId_def JSON_parse_stringify
  by (simp add: property_def split: option.splits)

lemma stringify_inject: "stringify v = stringify w \<Longrightarrow> v = w"
  by (metis JSON_parse_stringify option.inject)

lemma makeId_inject [simp]:
  "makeId f opts = makeId f' opts' \<longleftrightarrow> f = f' \<and> opts = opts'"
proof
  assume "makeId f opts = makeId f' opts'"
  then have "JObj ((''filename'', JStr f) # (case opts of None \<Rightarrow> [] | Some v \<Rightarrow> [(''options'', v)]))
      = JObj ((''filename'', JStr f') # (case opts' of None \<Rightarrow> [] | Some v \<Rightarrow> [(''options'', v)]))"
    unfolding makeId_def by (rule stringify_inject)
  then show "f = f' \<and> opts = opts'"
    by (auto split: option.splits)
qed simp

section \<open>The eviction loop\<close>

lemma makeSpaceLoop_done:
  "\<not> targetSize < g_cacheSize st \<Longrightarrow> makeSpaceLoop targetSize st = Some (Inr (), st)"
  by (subst makeSpaceLoop.simps) simp

lemma makeSpaceLoop_step:
  "targetSize < g_cacheSize st \<Longrightarrow>
   makeSpaceLoop targetSize st =
     (case removeById (take 1 (g_fileLRUList st))
             (st\<lparr> g_fileLRUList := drop 1 (g_fileLRUList st) \<rparr>) of
        (Inl e, st1) \<Rightarrow> Some (Inl e, st1)
      | (Inr u, st1) \<Rightarrow> makeSpaceLoop targetSize st1)"
  by (subst makeSpaceLoop.simps) simp

subsection \<open>Association lists\<close>

lemma update_same_watcher:
  "map_of T d = Some fi \<Longrightarrow> watcher fi' = watcher fi \<Longrightarrow>
   map (\<lambda>entry. watcher (snd entry)) (AList.update d fi' T) = map (\<lambda>entry. watcher (snd entry)) T"
  by (induction T) (auto split: if_splits)

lemma delete_watcher_mset:
  "map_of T d = Some fi \<Longrightarrow> distinct (map fst T) \<Longrightarrow>
   mset (map (\<lambda>entry. watcher (snd entry)) T)
     = add_mset (watcher fi) (mset (map (\<lambda>entry. watcher (snd entry)) (AList.delete d T)))"
proof (induction T)
  case Nil
  then show ?case by simp
next
  case (Cons e T)
  show ?case
  proof (cases "fst e = d")
    case True
    then have "d \<notin> fst ` set T" using Cons.prems(2) by auto
    then have "AList.delete d T = T"
      by (induction T) auto
    then show ?thesis using True Cons.prems(1) by (cases e) simp
  next
    case False
    then show ?thesis using Cons by (cases e) auto
  qed
qed

lemma list_all_update:
  "list_all P T \<Longrightarrow> P (d, v) \<Longrightarrow> list_all P (AList.update d v T)"
  by (induction T) auto

lemma list_all_delete:
  "list_all P T \<Longrightarrow> list_all P (AList.delete d T)"
  by (induction T) auto

lemma length_update_present:
  "map_of T d = Some v0 \<Longrightarrow> length (AList.update d v T) = length T"
  by (induction T) (auto split: if_splits)

lemma length_delete_present:
  "map_of T d = Some v0 \<Longrightarrow> distinct (map fst T) \<Longrightarrow> Suc (length (AList.delete d T)) = length T"
proof (induction T)
  case Nil
  then show ?case by simp
next
  case (Cons e T)
  show ?case
  proof (cases "fst e = d")
    case True
    then have "d \<notin> fst ` set T" using Cons.prems(2) by auto
    then have "AList.delete d T = T"
      by (induction T) auto
    then show ?thesis using True by (cases e) simp
  next
    case False
    then show ?thesis using Cons by (cases e) auto
  qed
qed

lemma update_appended:
  "map_of T d = None \<Longrightarrow> AList.update d v (T @ [(d, v0)]) = T @ [(d, v)]"
  by (induction T) (auto split: if_splits)

lemma list_all_map_of:
  "list_all P T \<Longrightarrow> map_of T d = Some v \<Longrightarrow> P (d, v)"
  by (induction T) (auto split: if_splits)

lemma length_removeAll_distinct:
  "distinct xs \<Longrightarrow> x \<in> set xs \<Longrightarrow> Suc (length (removeAll x xs)) = length xs"
  by (induction xs) auto

subsection \<open>Property reads and enumeration order\<close>

lemma getProperty_Own: "getProperty obj key = Own v \<longleftrightarrow> map_of obj key = Some v"
  by (simp add: getProperty_def split: option.splits)

lemma getProperty_not_Own:
  "getProperty obj key = Inherited \<or> getProperty obj key = Undefined \<Longrightarrow> map_of obj key = None"
  by (auto simp: getProperty_def split: option.splits if_splits)

lemma mset_forInOrder: "mset (forInOrder obj) = mset obj"
  by (simp add: forInOrder_def)

subsection \<open>The trackers stay in order\<close>

lemma untrack_last:
  assumes ok: "trackers_ok st"
    and fi: "map_of (g_trackedFolders st) d = Some fi"
    and last: "numFiles fi - 1 = 0"
  shows "trackers_ok (st\<lparr> fs_closed := fs_closed st @ [watcher fi],
                          g_trackedFolders := AList.delete d (g_trackedFolders st),
                          g_numTrackedFolders := g_numTrackedFolders st - 1 \<rparr>)"
proof -
  have d: "distinct (map fst (g_trackedFolders st))" using ok by (simp add: trackers_ok_def)
  have len: "Suc (length (AList.delete d (g_trackedFolders st))) = length (g_trackedFolders st)"
    using length_delete_present[OF fi d] .
  have ms: "mset (map (\<lambda>entry. watcher (snd entry)) (g_trackedFolders st))
     = add_mset (watcher fi) (mset (map (\<lambda>entry. watcher (snd entry)) (AList.delete d (g_trackedFolders st))))"
    using delete_watcher_mset[OF fi d] .
  show ?thesis
    using ok len ms
    by (simp add: trackers_ok_def AList.distinct_delete list_all_delete)
qed

lemma untrack_one:
  assumes ok: "trackers_ok st"
    and fi: "map_of (g_trackedFolders st) d = Some fi"
    and mem: "fid \<in> set (fileIds fi)"
    and more: "numFiles fi - 1 \<noteq> 0"
  shows "trackers_ok (st\<lparr> g_trackedFolders :=
            AList.update d (fi\<lparr> fileIds := removeAll fid (fileIds fi), numFiles := numFiles fi - 1 \<rparr>)
              (g_trackedFolders st) \<rparr>)"
proof -
  have t: "tracker_ok fi"
    using ok fi list_all_map_of[of "\<lambda>entry. tracker_ok (snd entry)" "g_trackedFolders st" d fi]
    by (simp add: trackers_ok_def)
  have len: "Suc (length (removeAll fid (fileIds fi))) = length (fileIds fi)"
    using t mem by (simp add: tracker_ok_def length_removeAll_distinct)
  have t': "tracker_ok (fi\<lparr> fileIds := removeAll fid (fileIds fi), numFiles := numFiles fi - 1 \<rparr>)"
    using t more len by (auto simp: tracker_ok_def distinct_removeAll)
  show ?thesis
    using ok t'
    by (simp add: trackers_ok_def AList.distinct_update list_all_update
        update_same_watcher[OF fi] length_update_present[OF fi])
qed

lemma untrackFolder_trackers:
  assumes ok: "trackers_ok st"
  shows "trackers_ok (snd (untrackFolder fid filename st))"
proof (cases "getProperty (g_trackedFolders st) (path_dirname filename)")
  case (Own fi)
  then have "map_of (g_trackedFolders st) (path_dirname filename) = Some fi"
    by (simp add: getProperty_Own)
  then show ?thesis
    using ok Own untrack_last[OF ok, of "path_dirname filename" fi]
      untrack_one[OF ok, of "path_dirname filename" fi fid]
    by (simp add: untrackFolder_def Let_def)
next
  case Inherited
  then show ?thesis using ok by (simp add: untrackFolder_def Let_def)
next
  case Undefined
  then show ?thesis using ok by (simp add: untrackFolder_def Let_def)
qed

lemma removeById_each_trackers:
  assumes "trackers_ok st"
  shows "trackers_ok (snd (removeById_each fid st))"
proof (cases "map_of (g_cachedFiles st) fid")
  case None
  then show ?thesis using assms by (simp add: removeById_each_def)
next
  case (Some contents)
  define st1 where "st1 = st\<lparr> g_cacheSize :=
                          (if contentLength contents \<noteq> 0
                           then g_cacheSize st - contentLength contents
                           else g_cacheSize st),
                        g_cachedFiles := AList.delete fid (g_cachedFiles st) \<rparr>"
  have ok1: "trackers_ok st1"
    using assms by (simp add: st1_def trackers_ok_def)
  have "removeById_each fid st =
      (case getFilenameFromId fid of
         Inl e \<Rightarrow> (Inl e, st1)
       | Inr filename \<Rightarrow> untrackFolder fid filename st1)"
    using Some unfolding removeById_each_def st1_def Let_def by simp
  then show ?thesis
    using ok1 untrackFolder_trackers[OF ok1] by (simp split: sum.splits)
qed

lemma trackFolder_trackers:
  assumes ok: "trackers_ok st"
  shows "trackers_ok (snd (trackFolder fid st))"
proof (cases "g_checkForFileChanges st")
  case False
  then show ?thesis using ok by (simp add: trackFolder_def)
next
  case True
  show ?thesis
  proof (cases "getFilenameFromId fid")
    case (Inl e)
    then show ?thesis using ok True by (simp add: trackFolder_def)
  next
    case (Inr filename)
    define d where "d = path_dirname filename"
    show ?thesis
    proof (cases "getProperty (g_trackedFolders st) d")
      case Inherited
      then show ?thesis
        using True Inr ok by (simp add: trackFolder_def Let_def d_def[symmetric])
    next
      case Undefined
      then have None: "map_of (g_trackedFolders st) d = None"
        by (simp add: getProperty_not_Own)
      have "trackers_ok (st\<lparr> g_trackedFolders := g_trackedFolders st
               @ [(d, \<lparr> watcher = fs_watches st, fileIds = [fid], numFiles = 1 \<rparr>)],
             g_numTrackedFolders := g_numTrackedFolders st + 1,
             fs_watches := Suc (fs_watches st) \<rparr>)"
        using ok None
        by (auto simp: trackers_ok_def tracker_ok_def map_of_eq_None_iff)
      then show ?thesis
        using True Inr None Undefined
        by (simp add: trackFolder_def Let_def d_def[symmetric] update_appended trackers_ok_def)
    next
      case (Own fi)
      then have Some: "map_of (g_trackedFolders st) d = Some fi" by (simp add: getProperty_Own)
      have t: "tracker_ok fi"
        using ok Some list_all_map_of[of "\<lambda>entry. tracker_ok (snd entry)" "g_trackedFolders st" d fi]
        by (simp add: trackers_ok_def)
      have "fid \<notin> set (fileIds fi) \<Longrightarrow>
            trackers_ok (st\<lparr> g_trackedFolders :=
               AList.update d (fi\<lparr> fileIds := fileIds fi @ [fid], numFiles := numFiles fi + 1 \<rparr>)
                 (g_trackedFolders st) \<rparr>)"
        using ok t
        by (simp add: trackers_ok_def tracker_ok_def AList.distinct_update list_all_update
            update_same_watcher[OF Some] length_update_present[OF Some])
      then show ?thesis
        using True Inr Own ok
        by (simp add: trackFolder_def Let_def d_def[symmetric])
    qed
  qed
qed

lemma clear_trackers:
  assumes "trackers_ok st"
  shows "trackers_ok (clear st)"
proof -
  have "mset (map (\<lambda>entry. watcher (snd entry)) (forInOrder (g_trackedFolders st)))
      = mset (map (\<lambda>entry. watcher (snd entry)) (g_trackedFolders st))"
    using mset_forInOrder[of "g_trackedFolders st"] by (metis mset_map)
  then show ?thesis
    using assms by (simp add: clear_def trackers_ok_def add.commute)
qed

lemma Cache_trackers: "trackers_ok (Cache cacheSizeLimit checkForFileChanges)"
  by (simp add: Cache_def trackers_ok_def)

section \<open>What eviction and tracking leave alone\<close>

lemma untrackFolder_frame [simp]:
  "g_cachedFiles (snd (untrackFolder fid f st)) = g_cachedFiles st"
  "g_cacheSize (snd (untrackFolder fid f st)) = g_cacheSize st"
  "g_fileLRUList (snd (untrackFolder fid f st)) = g_fileLRUList st"
  "g_cacheSizeLimit (snd (untrackFolder fid f st)) = g_cacheSizeLimit st"
  "g_checkForFileChanges (snd (untrackFolder fid f st)) = g_checkForFileChanges st"
  "fs_reads (snd (untrackFolder fid f st)) = fs_reads st"
  by (simp_all add: untrackFolder_def Let_def split: property.splits)

lemma trackFolder_frame:
  "g_cachedFiles (snd (trackFolder fid st)) = g_cachedFiles st"
  "g_cacheSize (snd (trackFolder fid st)) = g_cacheSize st"
  "g_fileLRUList (snd (trackFolder fid st)) = g_fileLRUList st"
  "g_cacheSizeLimit (snd (trackFolder fid st)) = g_cacheSizeLimit st"
  "g_checkForFileChanges (snd (trackFolder fid st)) = g_checkForFileChanges st"
  "fs_reads (snd (trackFolder fid st)) = fs_reads st"
  by (simp_all add: trackFolder_def Let_def split: property.splits sum.splits)


lemma removeById_each_absent:
  "map_of (g_cachedFiles st) fid = None \<Longrightarrow> removeById_each fid st = (Inl TypeError, st)"
  by (simp add: removeById_each_def)

lemma removeById_each_cached:
  "map_of (g_cachedFiles st) fid = Some c \<Longrightarrow>
   g_cachedFiles (snd (removeById_each fid st)) = AList.delete fid (g_cachedFiles st)
   \<and> g_cacheSize (snd (removeById_each fid st)) = g_cacheSize st - contentLength c"
  by (simp add: removeById_each_def Let_def split: sum.splits)



lemma keys_delete: "fst ` set (AList.delete k T) = fst ` set T - {k}"
  by (induction T) auto


section \<open>Properties kept by every operation\<close>

lemma preservedD:
  assumes "preserved Q" "Q st"
  shows "Q (snd (removeById_each fid st))"
    and "Q (snd (removeById (take 1 (g_fileLRUList st))
                     (st\<lparr> g_fileLRUList := drop 1 (g_fileLRUList st) \<rparr>)))"
    and "Q (st\<lparr> g_fileLRUList := remove1 fid (g_fileLRUList st) @ [fid] \<rparr>)"
    and "Q (st\<lparr> fs_reads := n \<rparr>)"
    and "Q (st\<lparr> g_cacheSizeLimit := m \<rparr>)"
    and "Q (snd (trackFolder (makeId filename options)
                 (st\<lparr> g_cachedFiles := AList.update (makeId filename options) data (g_cachedFiles st),
                      g_cacheSize := g_cacheSize st + contentLength data,
                      g_fileLRUList := g_fileLRUList st @ [makeId filename options] \<rparr>)))"
    and "Q (clear st)"
proof -
  have 1: "\<forall>fid st. Q st \<longrightarrow> Q (snd (removeById_each fid st))"
    and 2: "\<forall>st. Q st \<longrightarrow>
           Q (snd (removeById (take 1 (g_fileLRUList st))
                     (st\<lparr> g_fileLRUList := drop 1 (g_fileLRUList st) \<rparr>)))"
    and 3: "\<forall>st fid. Q st \<longrightarrow> Q (st\<lparr> g_fileLRUList := remove1 fid (g_fileLRUList st) @ [fid] \<rparr>)"
    and 4: "\<forall>st n. Q st \<longrightarrow> Q (st\<lparr> fs_reads := n \<rparr>)"
    and 5: "\<forall>st m. Q st \<longrightarrow> Q (st\<lparr> g_cacheSizeLimit := m \<rparr>)"
    and 6: "\<forall>filename options data st. Q st \<longrightarrow>
           Q (snd (trackFolder (makeId filename options)
                 (st\<lparr> g_cachedFiles := AList.update (makeId filename options) data (g_cachedFiles st),
                      g_cacheSize := g_cacheSize st + contentLength data,
                      g_fileLRUList := g_fileLRUList st @ [makeId filename options] \<rparr>)))"
    and 7: "\<forall>st. Q st \<longrightarrow> Q (clear st)"
    using assms(1) unfolding preserved_def by simp_all
  show "Q (snd (removeById_each fid st))" using 1 assms(2) by (elim allE impE)
  show "Q (snd (removeById (take 1 (g_fileLRUList st))
                     (st\<lparr> g_fileLRUList := drop 1 (g_fileLRUList st) \<rparr>)))"
    using 2 assms(2) by (elim allE impE)
  show "Q (st\<lparr> g_fileLRUList := remove1 fid (g_fileLRUList st) @ [fid] \<rparr>)"
    using 3 assms(2) by (elim allE impE)
  show "Q (st\<lparr> fs_reads := n \<rparr>)" using 4 assms(2) by (elim allE impE)
  show "Q (st\<lparr> g_cacheSizeLimit := m \<rparr>)" using 5 assms(2) by (elim allE impE)
  show "Q (snd (trackFolder (makeId filename options)
                 (st\<lparr> g_cachedFiles := AList.update (makeId filename options) data (g_cachedFiles st),
                      g_cacheSize := g_cacheSize st + contentLength data,
                      g_fileLRUList := g_fileLRUList st @ [makeId filename options] \<rparr>)))"
    using 6 assms(2) by (elim allE impE)
  show "Q (clear st)" using 7 assms(2) by (elim allE impE)
qed

lemma removeById_keeps:
  assumes each: "\<And>fid st. Q st \<Longrightarrow> Q (snd (removeById_each fid st))"
  shows "Q st \<Longrightarrow> Q (snd (removeById ids st))"
proof (induction ids arbitrary: st)
  case Nil
  then show ?case by simp
next
  case (Cons fid ids)
  obtain r st1 where e: "removeById_each fid st = (r, st1)" by (cases "removeById_each fid st")
  have q1: "Q st1"
    using each[OF Cons.prems, of fid] e by simp
  show ?case
    using e q1 Cons.IH[OF q1] by (cases r) simp_all
qed

lemma removeById_preserves:
  "preserved Q \<Longrightarrow> Q st \<Longrightarrow> Q (snd (removeById ids st))"
  using removeById_keeps[of Q st ids] preservedD(1)[of Q] by blast

lemma makeSpaceLoop_preserves':
  assumes p: "preserved Q" and run: "makeSpaceLoop targetSize st = Some res"
  shows "Q st \<longrightarrow> Q (snd res)"
proof (rule makeSpaceLoop.raw_induct
    [where P = "\<lambda>t s r. Q s \<longrightarrow> Q (snd r)", OF _ run])
  fix loop :: "int \<Rightarrow> cache \<Rightarrow> (unit outcome) option" and t s r
  assume IH: "\<And>t s r. loop t s = Some r \<Longrightarrow> Q s \<longrightarrow> Q (snd r)"
    and body: "(if t < g_cacheSize s then
        (case removeById (take 1 (g_fileLRUList s))
                (s\<lparr> g_fileLRUList := drop 1 (g_fileLRUList s) \<rparr>) of
           (Inl e, st1) \<Rightarrow> Some (Inl e, st1)
         | (Inr u, st1) \<Rightarrow> loop t st1)
      else Some (Inr (), s)) = Some r"
  show "Q s \<longrightarrow> Q (snd r)"
  proof
    assume q: "Q s"
    show "Q (snd r)"
    proof (cases "t < g_cacheSize s")
      case False
      then show ?thesis using body q by auto
    next
      case True
      define s0 where "s0 = s\<lparr> g_fileLRUList := drop 1 (g_fileLRUList s) \<rparr>"
      obtain x s1 where e: "removeById (take 1 (g_fileLRUList s)) s0 = (x, s1)"
        by (cases "removeById (take 1 (g_fileLRUList s)) s0")
      have q1: "Q s1"
        using preservedD(2)[OF p q] e by (simp add: s0_def)
      show ?thesis
      proof (cases x)
        case (Inl err)
        then show ?thesis using body True e q1 by (auto simp: s0_def)
      next
        case (Inr u)
        then have "loop t s1 = Some r"
          using body True e by (simp add: s0_def)
        then show ?thesis using IH q1 by blast
      qed
    qed
  qed
qed

lemma makeSpaceLoop_preserves:
  "preserved Q \<Longrightarrow> makeSpaceLoop targetSize st = Some res \<Longrightarrow> Q st \<Longrightarrow> Q (snd res)"
  using makeSpaceLoop_preserves' by blast

lemma cacheContent_preserves:
  assumes p: "preserved Q"
    and c: "cacheContent (makeId filename options) data st = Some res"
    and q: "Q st"
  shows "Q (snd res)"
proof (cases "contentLength data \<le> g_cacheSizeLimit st")
  case False
  then show ?thesis using c q by (auto simp: cacheContent_def)
next
  case True
  then obtain r st1 where m: "makeSpaceInCache (contentLength data) st = Some (r, st1)"
    using c by (cases "makeSpaceInCache (contentLength data) st") (auto simp: cacheContent_def)
  have q1: "Q st1"
    using makeSpaceLoop_preserves[OF p _ q, of _ "(r, st1)"] m by (simp add: makeSpaceInCache_def)
  show ?thesis
  proof (cases r)
    case (Inl e)
    then show ?thesis using c True m q1 by (auto simp: cacheContent_def)
  next
    case (Inr u)
    have "res = trackFolder (makeId filename options)
                 (st1\<lparr> g_cachedFiles := AList.update (makeId filename options) data (g_cachedFiles st1),
                      g_cacheSize := g_cacheSize st1 + contentLength data,
                      g_fileLRUList := g_fileLRUList st1 @ [makeId filename options] \<rparr>)"
      using c True m Inr by (simp add: cacheContent_def)
    then show ?thesis using preservedD(6)[OF p q1] by simp
  qed
qed

lemma getContentFromCache_preserves:
  "preserved Q \<Longrightarrow> Q st \<Longrightarrow> Q (snd (getContentFromCache fid st))"
  using preservedD(3)[of Q st fid]
  by (auto simp: getContentFromCache_def split: option.splits)

lemma readFile_preserves:
  assumes p: "preserved Q" and q: "Q st"
  shows "Q (snd (readFile filename options st))"
proof -
  obtain content st1 where g: "getContentFromCache (makeId filename options) st = (content, st1)"
    by (cases "getContentFromCache (makeId filename options) st")
  have q1: "Q st1"
    using getContentFromCache_preserves[OF p q, of "makeId filename options"] g by simp
  show ?thesis
    using g q1 preservedD(4)[OF p q1]
    by (cases content) (simp_all add: readFile_def Let_def)
qed

lemma readFile_done_preserves:
  assumes p: "preserved Q" and d: "readFile_done (makeId filename options) result st = Some res"
    and q: "Q st"
  shows "Q (snd res)"
proof (cases result)
  case (Inl err)
  then show ?thesis using d q by (auto simp: readFile_done_def)
next
  case (Inr data)
  then obtain r st1 where c: "cacheContent (makeId filename options) data st = Some (r, st1)"
    using d by (cases "cacheContent (makeId filename options) data st") (auto simp: readFile_done_def)
  have "Q st1" using cacheContent_preserves[OF p c q] by simp
  then show ?thesis using d Inr c by (cases r) (auto simp: readFile_done_def)
qed

lemma readFileSync_preserves:
  assumes p: "preserved Q" and r: "readFileSync filename options onDisk st = Some res"
    and q: "Q st"
  shows "Q (snd res)"
proof -
  obtain content st1 where g: "getContentFromCache (makeId filename options) st = (content, st1)"
    by (cases "getContentFromCache (makeId filename options) st")
  have q1: "Q st1"
    using getContentFromCache_preserves[OF p q, of "makeId filename options"] g by simp
  define st2 where "st2 = st1\<lparr> fs_reads := Suc (fs_reads st1) \<rparr>"
  have q2: "Q st2" unfolding st2_def by (rule preservedD(4)[OF p q1])
  define reread where "reread = (case onDisk of
                      Inl err \<Rightarrow> Some (Inl err, st2)
                    | Inr data \<Rightarrow>
                        (case cacheContent (makeId filename options) data st2 of
                           None \<Rightarrow> None
                         | Some (Inl e, st3) \<Rightarrow> Some (Inl e, st3)
                         | Some (Inr u, st3) \<Rightarrow> Some (Inr data, st3)))"
  have rr: "reread = Some res \<Longrightarrow> Q (snd res)"
  proof (cases onDisk)
    case (Inl err)
    then show "reread = Some res \<Longrightarrow> ?thesis" using q2 by (auto simp: reread_def)
  next
    case (Inr data)
    assume a: "reread = Some res"
    then obtain x st3 where c: "cacheContent (makeId filename options) data st2 = Some (x, st3)"
      using Inr by (cases "cacheContent (makeId filename options) data st2") (auto simp: reread_def)
    have "Q st3" using cacheContent_preserves[OF p c q2] by simp
    then show ?thesis using a Inr c by (cases x) (auto simp: reread_def)
  qed
  have "readFileSync filename options onDisk st =
      (case content of
           None \<Rightarrow> reread
         | Some cached \<Rightarrow> if truthy cached then Some (Inr cached, st1) else reread)"
    unfolding readFileSync_def Let_def g prod.case reread_def st2_def ..
  then have "(case content of
           None \<Rightarrow> reread
         | Some cached \<Rightarrow> if truthy cached then Some (Inr cached, st1) else reread) = Some res"
    using r by simp
  then show ?thesis
    using rr q1 by (cases content) (auto split: if_splits)
qed

lemma watchCallback_preserves:
  "preserved Q \<Longrightarrow> Q st \<Longrightarrow> Q (snd (watchCallback dirname filename st))"
  using removeById_preserves[of Q st]
  by (auto simp: watchCallback_def removeByFilename_def removeByFolder_def
      split: option.splits sum.splits list.splits)

lemma setCacheSizeLimit_preserves:
  "preserved Q \<Longrightarrow> setCacheSizeLimit numBytes st = Some res \<Longrightarrow> Q st \<Longrightarrow> Q (snd res)"
  using makeSpaceLoop_preserves[of Q _ "st\<lparr> g_cacheSizeLimit := max 0 numBytes \<rparr>" res]
    preservedD(5)[of Q st]
  by (simp add: setCacheSizeLimit_def makeSpaceInCache_def)

lemma step_preserves:
  assumes p: "preserved Q" and s: "step e st = Some st'" and q: "Q st"
  shows "Q st'"
proof (cases e)
  case (ReadFile f opts)
  then show ?thesis using s readFile_preserves[OF p q, of f opts] by auto
next
  case (ReadFileDone f opts r)
  then show ?thesis using s readFile_done_preserves[OF p _ q, of f opts r] by auto
next
  case (ReadFileSync f opts r)
  then show ?thesis using s readFileSync_preserves[OF p _ q, of f opts r] by auto
next
  case (WatchEvent d fn)
  then show ?thesis using s watchCallback_preserves[OF p q, of d fn] by auto
next
  case (SetCacheSizeLimit n)
  then show ?thesis using s setCacheSizeLimit_preserves[OF p _ q, of n] by auto
next
  case Clear
  then show ?thesis using s preservedD(7)[OF p q] by auto
qed

lemma run_preserves:
  "preserved Q \<Longrightarrow> run es st = Some st' \<Longrightarrow> Q st \<Longrightarrow> Q st'"
proof (induction es arbitrary: st)
  case Nil
  then show ?case by simp
next
  case (Cons e es)
  then obtain st1 where s: "step e st = Some st1" and r: "run es st1 = Some st'"
    by (auto split: option.splits)
  show ?case using Cons.IH[OF Cons.prems(1) r] step_preserves[OF Cons.prems(1) s Cons.prems(3)] by simp
qed

lemma pop_keeps:
  assumes each: "\<And>fid st. Q st \<Longrightarrow> Q (snd (removeById_each fid st))"
    and lru: "\<And>st l. Q st \<Longrightarrow> Q (st\<lparr> g_fileLRUList := l \<rparr>)"
    and q: "Q st"
  shows "Q (snd (removeById (take 1 (g_fileLRUList st))
                     (st\<lparr> g_fileLRUList := drop 1 (g_fileLRUList st) \<rparr>)))"
  using removeById_keeps[of Q, OF each lru[OF q]] by blast

lemma preserved_trackers_ok: "preserved trackers_ok"
  unfolding preserved_def
proof (intro conjI allI impI)
  fix st fid assume "trackers_ok st"
  then show "trackers_ok (snd (removeById_each fid st))" by (rule removeById_each_trackers)
next
  fix st assume ok: "trackers_ok st"
  show "trackers_ok (snd (removeById (take 1 (g_fileLRUList st))
                     (st\<lparr> g_fileLRUList := drop 1 (g_fileLRUList st) \<rparr>)))"
  proof (rule pop_keeps[of trackers_ok, OF _ _ ok])
    show "\<And>fid st. trackers_ok st \<Longrightarrow> trackers_ok (snd (removeById_each fid st))"
      by (rule removeById_each_trackers)
    show "\<And>st l. trackers_ok st \<Longrightarrow> trackers_ok (st\<lparr> g_fileLRUList := l \<rparr>)"
      by (simp add: trackers_ok_def)
  qed
next
  fix filename options data st assume ok: "trackers_ok st"
  then have "trackers_ok (st\<lparr> g_cachedFiles := AList.update (makeId filename options) data (g_cachedFiles st),
                      g_cacheSize := g_cacheSize st + contentLength data,
                      g_fileLRUList := g_fileLRUList st @ [makeId filename options] \<rparr>)"
    by (simp add: trackers_ok_def)
  then show "trackers_ok (snd (trackFolder (makeId filename options)
                 (st\<lparr> g_cachedFiles := AList.update (makeId filename options) data (g_cachedFiles st),
                      g_cacheSize := g_cacheSize st + contentLength data,
                      g_fileLRUList := g_fileLRUList st @ [makeId filename options] \<rparr>)))"
    by (rule trackFolder_trackers)
next
  fix st assume "trackers_ok st"
  then show "trackers_ok (clear st)" by (rule clear_trackers)
qed (simp_all add: trackers_ok_def)



section \<open>Trackers and evaluation\<close>

lemmas eval_defs = Cache_def readFileSync_def getContentFromCache_def cacheContent_def
  makeSpaceInCache_def makeSpaceLoop_done makeSpaceLoop_step trackFolder_def
  getFilenameFromId_makeId path_dirname_def Let_def removeById_each_def untrackFolder_def
  watchCallback_def removeByFilename_def removeByFolder_def path_join_def path_normalize_def
  readFile_def readFile_done_def clear_def setCacheSizeLimit_def getProperty_def
  objectPrototypeMembers_def

lemma live_not_closed:
  assumes ok: "trackers_ok st" and fi: "map_of (g_trackedFolders st) d = Some fi"
  shows "watcher fi \<notin> set (fs_closed st)"
proof
  assume c: "watcher fi \<in> set (fs_closed st)"
  have "(d, fi) \<in> set (g_trackedFolders st)" using fi by (rule map_of_SomeD)
  then have "watcher fi \<in> set (map (\<lambda>entry. watcher (snd entry)) (g_trackedFolders st))"
    by force
  then have 1: "1 \<le> count (mset (map (\<lambda>entry. watcher (snd entry)) (g_trackedFolders st))) (watcher fi)"
    by (metis count_greater_eq_one_iff set_mset_mset)
  have 2: "1 \<le> count (mset (fs_closed st)) (watcher fi)"
    using c by (metis count_greater_eq_one_iff set_mset_mset)
  have "count (mset [0..<fs_watches st]) (watcher fi) \<le> 1"
    by (metis distinct_count_atmost_1 distinct_upt le_refl zero_le)
  moreover have "mset (map (\<lambda>entry. watcher (snd entry)) (g_trackedFolders st)) + mset (fs_closed st)
         = mset [0..<fs_watches st]"
    using ok unfolding trackers_ok_def by blast
  ultimately show False using 1 2
    by (metis add_le_mono count_union not_less_eq_eq numeral_2_eq_2 one_add_one Suc_1)
qed

lemma untrackFolder_last:
  assumes ok: "trackers_ok st" and fi: "map_of (g_trackedFolders st) d = Some fi"
    and c: "g_checkForFileChanges st" "d = path_dirname filename" "fileIds fi = [fid]"
  shows "fst (untrackFolder fid filename st) = Inr ()"
    and "map_of (g_trackedFolders (snd (untrackFolder fid filename st))) d = None"
    and "fs_closed (snd (untrackFolder fid filename st)) = fs_closed st @ [watcher fi]"
proof -
  have t: "tracker_ok fi"
    using ok fi list_all_map_of[of "\<lambda>entry. tracker_ok (snd entry)" "g_trackedFolders st" d fi]
    by (simp add: trackers_ok_def)
  then have n: "numFiles fi = 1" using c(3) by (simp add: tracker_ok_def)
  have g: "getProperty (g_trackedFolders st) (path_dirname filename) = Own fi"
    using fi c(2) by (simp add: getProperty_Own)
  show "fst (untrackFolder fid filename st) = Inr ()"
    using g c n by (simp add: untrackFolder_def Let_def)
  show "map_of (g_trackedFolders (snd (untrackFolder fid filename st))) d = None"
    using g c n by (simp add: untrackFolder_def Let_def AList.delete_conv')
  show "fs_closed (snd (untrackFolder fid filename st)) = fs_closed st @ [watcher fi]"
    using g c n by (simp add: untrackFolder_def Let_def)
qed

lemma untrackFolder_keeps:
  assumes ok: "trackers_ok st" and fi: "map_of (g_trackedFolders st) d = Some fi"
    and c: "\<not> (g_checkForFileChanges st \<and> d = path_dirname filename \<and> fileIds fi = [fid])"
  shows "\<exists>fi'. map_of (g_trackedFolders (snd (untrackFolder fid filename st))) d = Some fi'
            \<and> watcher fi' = watcher fi"
proof (cases "g_checkForFileChanges st")
  case False
  then show ?thesis using fi by (simp add: untrackFolder_def)
next
  case True
  define d' where "d' = path_dirname filename"
  show ?thesis
  proof (cases "getProperty (g_trackedFolders st) d'")
    case Undefined
    then show ?thesis using fi True by (simp add: untrackFolder_def Let_def d'_def[symmetric])
  next
    case Inherited
    then show ?thesis using fi True by (simp add: untrackFolder_def Let_def d'_def[symmetric])
  next
    case (Own fi')
    then have Some: "map_of (g_trackedFolders st) d' = Some fi'" by (simp add: getProperty_Own)
    have t: "tracker_ok fi'"
      using ok Some list_all_map_of[of "\<lambda>entry. tracker_ok (snd entry)" "g_trackedFolders st" d' fi']
      by (simp add: trackers_ok_def)
    show ?thesis
    proof (cases "fid \<in> set (fileIds fi')")
      case False
      then show ?thesis using fi True Own by (simp add: untrackFolder_def Let_def d'_def[symmetric])
    next
      case mem: True
      show ?thesis
      proof (cases "numFiles fi' - 1 = 0")
        case last: True
        then have "length (fileIds fi') = 1" using t by (simp add: tracker_ok_def)
        then have "fileIds fi' = [fid]" using mem by (cases "fileIds fi'") auto
        then have "d \<noteq> d'" using c True Some fi by (auto simp: d'_def)
        then show ?thesis
          using fi True Own mem last
          by (simp add: untrackFolder_def Let_def d'_def[symmetric] AList.delete_conv')
      next
        case more: False
        show ?thesis
          using fi True Own Some mem more
          by (cases "d = d'") (simp_all add: untrackFolder_def Let_def d'_def[symmetric] AList.update_conv')
      qed
    qed
  qed
qed

text \<open>The loop of \<^verbatim>\<open>makeSpaceInCache\<close> does not end on an empty list with the total above
  the target, and a history of public operations leads there: after two overlapping reads
  of one file the total counts the entry twice, lowering the limit evicts the entry and
  throws on the second occurrence of its id, and the next call finds the list empty and
  the total still above the target.\<close>

lemma makeSpaceLoop_hangs:
  assumes "g_fileLRUList st = []" and "targetSize < g_cacheSize st"
  shows "makeSpaceLoop targetSize st = None"
proof (rule ccontr)
  assume "makeSpaceLoop targetSize st \<noteq> None"
  then obtain res where run: "makeSpaceLoop targetSize st = Some res" by auto
  have "\<not> (g_fileLRUList st = [] \<and> targetSize < g_cacheSize st)"
  proof (rule makeSpaceLoop.raw_induct
      [where P = "\<lambda>t s r. \<not> (g_fileLRUList s = [] \<and> t < g_cacheSize s)", OF _ run])
    fix loop :: "int \<Rightarrow> cache \<Rightarrow> (unit outcome) option" and t s r
    assume IH: "\<And>t s r. loop t s = Some r \<Longrightarrow> \<not> (g_fileLRUList s = [] \<and> t < g_cacheSize s)"
      and body: "(if t < g_cacheSize s then
          (case removeById (take 1 (g_fileLRUList s))
                  (s\<lparr> g_fileLRUList := drop 1 (g_fileLRUList s) \<rparr>) of
             (Inl e, st1) \<Rightarrow> Some (Inl e, st1)
           | (Inr u, st1) \<Rightarrow> loop t st1)
        else Some (Inr (), s)) = Some r"
    show "\<not> (g_fileLRUList s = [] \<and> t < g_cacheSize s)"
    proof
      assume a: "g_fileLRUList s = [] \<and> t < g_cacheSize s"
      then have "loop t (s\<lparr> g_fileLRUList := [] \<rparr>) = Some r" using body by simp
      then have "\<not> (g_fileLRUList (s\<lparr> g_fileLRUList := [] \<rparr>) = []
          \<and> t < g_cacheSize (s\<lparr> g_fileLRUList := [] \<rparr>))"
        by (rule IH)
      then show False using a by simp
    qed
  qed
  then show False using assms by simp
qed

lemma loop_without_end_reachable:
  "run [ReadFile ''/d/a'' None, ReadFile ''/d/a'' None,
        ReadFileDone ''/d/a'' None (Inr (Buffer [1, 2, 3])),
        ReadFileDone ''/d/a'' None (Inr (Buffer [1, 2, 3])),
        SetCacheSizeLimit 2] (Cache (Some 10) None) = Some scenario_empty_list
   \<and> setCacheSizeLimit 2 scenario_empty_list = None"
proof (rule conjI)
  show "run [ReadFile ''/d/a'' None, ReadFile ''/d/a'' None,
        ReadFileDone ''/d/a'' None (Inr (Buffer [1, 2, 3])),
        ReadFileDone ''/d/a'' None (Inr (Buffer [1, 2, 3])),
        SetCacheSizeLimit 2] (Cache (Some 10) None) = Some scenario_empty_list"
    by (simp add: eval_defs scenario_empty_list_def)
  have "makeSpaceLoop 2 (scenario_empty_list\<lparr> g_cacheSizeLimit := max 0 2 \<rparr>) = None"
    by (rule makeSpaceLoop_hangs) (simp_all add: scenario_empty_list_def)
  then show "setCacheSizeLimit 2 scenario_empty_list = None"
    by (simp add: setCacheSizeLimit_def makeSpaceInCache_def)
qed


section \<open>Reading again over an entry\<close>







section \<open>Where the documented behaviour holds\<close>

lemma Cache_keys: "keys_ok (Cache cacheSizeLimit checkForFileChanges)"
  by (simp add: Cache_def keys_ok_def)

lemma list_all_update_keys:
  "list_all (\<lambda>entry. P (fst entry)) T \<Longrightarrow> P k \<Longrightarrow> list_all (\<lambda>entry. P (fst entry)) (AList.update k v T)"
  by (induction T) auto

lemma removeById_each_keys:
  assumes "keys_ok st"
  shows "keys_ok (snd (removeById_each fid st))"
proof (cases "map_of (g_cachedFiles st) fid")
  case None
  then show ?thesis using assms by (simp add: removeById_each_absent)
next
  case (Some c)
  then show ?thesis
    using assms removeById_each_cached[OF Some]
    by (simp add: keys_ok_def AList.distinct_delete list_all_delete)
qed

lemma preserved_keys_ok: "preserved keys_ok"
  unfolding preserved_def
proof (intro conjI allI impI)
  fix st fid assume "keys_ok st"
  then show "keys_ok (snd (removeById_each fid st))" by (rule removeById_each_keys)
next
  fix st assume ok: "keys_ok st"
  show "keys_ok (snd (removeById (take 1 (g_fileLRUList st))
                     (st\<lparr> g_fileLRUList := drop 1 (g_fileLRUList st) \<rparr>)))"
  proof (rule pop_keeps[of keys_ok, OF _ _ ok])
    show "\<And>fid st. keys_ok st \<Longrightarrow> keys_ok (snd (removeById_each fid st))"
      by (rule removeById_each_keys)
    show "\<And>st l. keys_ok st \<Longrightarrow> keys_ok (st\<lparr> g_fileLRUList := l \<rparr>)"
      by (simp add: keys_ok_def)
  qed
next
  fix filename options data st assume ok: "keys_ok st"
  then show "keys_ok (snd (trackFolder (makeId filename options)
                 (st\<lparr> g_cachedFiles := AList.update (makeId filename options) data (g_cachedFiles st),
                      g_cacheSize := g_cacheSize st + contentLength data,
                      g_fileLRUList := g_fileLRUList st @ [makeId filename options] \<rparr>)))"
    using list_all_update_keys[of "\<lambda>k. \<not> isl (getFilenameFromId k)" "g_cachedFiles st"
        "makeId filename options" data]
    by (simp add: keys_ok_def trackFolder_frame AList.distinct_update getFilenameFromId_makeId)
qed (simp_all add: keys_ok_def clear_def)

lemma keys_ok_valid:
  "keys_ok st \<Longrightarrow> map_of (g_cachedFiles st) fid = Some c \<Longrightarrow> \<exists>f. getFilenameFromId fid = Inr f"
proof -
  assume k: "keys_ok st" and m: "map_of (g_cachedFiles st) fid = Some c"
  have "\<not> isl (getFilenameFromId fid)"
    using k m list_all_map_of[of "\<lambda>entry. \<not> isl (getFilenameFromId (fst entry))" "g_cachedFiles st" fid c]
    by (simp add: keys_ok_def)
  then show ?thesis by (cases "getFilenameFromId fid") auto
qed

lemma untrackFolder_returns:
  "path_dirname filename \<notin> set objectPrototypeMembers \<Longrightarrow> fst (untrackFolder fid filename st) = Inr ()"
  by (simp add: untrackFolder_def Let_def getProperty_def split: option.splits)

lemma removeById_each_present:
  assumes "map_of (g_cachedFiles st) fid = Some c" "getFilenameFromId fid = Inr f"
    and "path_dirname f \<notin> set objectPrototypeMembers"
  shows "\<exists>st1. removeById_each fid st = (Inr (), st1)
     \<and> g_cachedFiles st1 = AList.delete fid (g_cachedFiles st)"
proof -
  have "fst (removeById_each fid st) = Inr ()"
    using assms untrackFolder_returns[OF assms(3)] by (simp add: removeById_each_def Let_def)
  then show ?thesis
    using removeById_each_cached[OF assms(1)] by (cases "removeById_each fid st") simp
qed

lemma delete_as_filter: "AList.delete k T = filter (\<lambda>e. fst e \<noteq> k) T"
  by (induction T) auto

lemma removeById_all_present:
  "distinct ids \<Longrightarrow> set ids \<subseteq> fst ` set (g_cachedFiles st) \<Longrightarrow> keys_ok st \<Longrightarrow>
   \<forall>fid \<in> set ids. getFilenameFromId fid = Inr target \<Longrightarrow>
   path_dirname target \<notin> set objectPrototypeMembers \<Longrightarrow>
   \<exists>st'. removeById ids st = (Inr (), st')
     \<and> g_cachedFiles st' = filter (\<lambda>entry. fst entry \<notin> set ids) (g_cachedFiles st)"
proof (induction ids arbitrary: st)
  case Nil
  then show ?case by simp
next
  case (Cons fid ids)
  then have "fid \<in> fst ` set (g_cachedFiles st)" by simp
  then obtain c where c: "map_of (g_cachedFiles st) fid = Some c"
    by (metis domD dom_map_of_conv_image_fst)
  have f: "getFilenameFromId fid = Inr target" using Cons.prems(4) by simp
  obtain st1 where st1: "removeById_each fid st = (Inr (), st1)"
    "g_cachedFiles st1 = AList.delete fid (g_cachedFiles st)"
    using removeById_each_present[OF c f Cons.prems(5)] by blast
  have k1: "keys_ok st1"
    using Cons.prems(3) st1(2) by (simp add: keys_ok_def AList.distinct_delete list_all_delete)
  have sub: "set ids \<subseteq> fst ` set (g_cachedFiles st1)"
    using Cons.prems(1,2) st1(2) by (auto simp: keys_delete)
  have d: "distinct ids" using Cons.prems(1) by simp
  have t: "\<forall>fid \<in> set ids. getFilenameFromId fid = Inr target" using Cons.prems(4) by simp
  obtain st' where st': "removeById ids st1 = (Inr (), st')"
    "g_cachedFiles st' = filter (\<lambda>entry. fst entry \<notin> set ids) (g_cachedFiles st1)"
    using Cons.IH[OF d sub k1 t Cons.prems(5)] by blast
  have "filter (\<lambda>entry. fst entry \<notin> set ids) (AList.delete fid (g_cachedFiles st))
      = filter (\<lambda>entry. fst entry \<notin> set (fid # ids)) (g_cachedFiles st)"
    by (auto simp: delete_as_filter intro: filter_cong)
  then show ?case using st1 st' by simp
qed

lemma idsByFilename_valid:
  "list_all (\<lambda>fid. \<not> isl (getFilenameFromId fid)) fids \<Longrightarrow>
   idsByFilename filename fids = Inr (filter (\<lambda>fid. getFilenameFromId fid = Inr filename) fids)"
proof (induction fids)
  case Nil
  then show ?case by simp
next
  case (Cons fid fids)
  then obtain f where "getFilenameFromId fid = Inr f"
    by (cases "getFilenameFromId fid") auto
  then show ?case using Cons by simp
qed

lemma map_of_filter_key:
  "map_of (filter (\<lambda>entry. Q (fst entry)) T) k = (if Q k then map_of T k else None)"
  by (induction T) auto

text \<open>In every state that a history of operations on a new cache leads to, a watch
  notification that carries a file name, for a joined path whose folder is not named like
  a member of Object.prototype, returns normally and removes from the content map exactly
  the entries whose id holds the joined path: the entries of that path under every
  options value are gone, and the entry of every other file name is as it was.\<close>

lemma file_notification_ordinary_folder:
  assumes "run es (Cache cacheSizeLimit checkForFileChanges) = Some st" and "name \<noteq> []"
    and "path_dirname (path_join dirname name) \<notin> set objectPrototypeMembers"
  shows "\<exists>st'. watchCallback dirname (Some name) st = (Inr (), st')
      \<and> g_cachedFiles st' =
          filter (\<lambda>entry. getFilenameFromId (fst entry) \<noteq> Inr (path_join dirname name)) (g_cachedFiles st)
      \<and> (\<forall>options. map_of (g_cachedFiles st') (makeId (path_join dirname name) options) = None)
      \<and> (\<forall>filename options. filename \<noteq> path_join dirname name \<longrightarrow>
            map_of (g_cachedFiles st') (makeId filename options)
              = map_of (g_cachedFiles st) (makeId filename options))"
proof -
  define target where "target = path_join dirname name"
  have k: "keys_ok st"
    using run_preserves[OF preserved_keys_ok assms(1) Cache_keys] .
  have v: "list_all (\<lambda>fid. \<not> isl (getFilenameFromId fid)) (map fst (g_cachedFiles st))"
    using k by (simp add: keys_ok_def list_all_iff)
  define ids where "ids = filter (\<lambda>fid. getFilenameFromId fid = Inr target) (map fst (g_cachedFiles st))"
  have i: "idsByFilename target (map fst (g_cachedFiles st)) = Inr ids"
    using idsByFilename_valid[OF v] by (simp add: ids_def)
  have d: "distinct ids" using k by (simp add: ids_def keys_ok_def)
  have s: "set ids \<subseteq> fst ` set (g_cachedFiles st)" by (auto simp: ids_def)
  have a: "\<forall>fid \<in> set ids. getFilenameFromId fid = Inr target" by (simp add: ids_def)
  have m: "path_dirname target \<notin> set objectPrototypeMembers" using assms(3) by (simp add: target_def)
  obtain st' where st': "removeById ids st = (Inr (), st')"
    "g_cachedFiles st' = filter (\<lambda>entry. fst entry \<notin> set ids) (g_cachedFiles st)"
    using removeById_all_present[OF d s k a m] by blast
  have w: "watchCallback dirname (Some name) st = (Inr (), st')"
    using assms(2) i st'(1) by (simp add: watchCallback_def removeByFilename_def target_def)
  have f: "g_cachedFiles st' =
      filter (\<lambda>entry. getFilenameFromId (fst entry) \<noteq> Inr target) (g_cachedFiles st)"
    unfolding st'(2) by (rule filter_cong) (auto simp: ids_def)
  have m: "map_of (g_cachedFiles st') fid
      = (if getFilenameFromId fid \<noteq> Inr target then map_of (g_cachedFiles st) fid else None)" for fid
    unfolding f using map_of_filter_key[of "\<lambda>fid. getFilenameFromId fid \<noteq> Inr target" "g_cachedFiles st" fid]
    by simp
  show ?thesis
    using w f m by (intro exI[of _ st']) (simp add: target_def getFilenameFromId_makeId)
qed

text \<open>The documented eviction scenario: with limit 9, a file A of 5 bytes and a file B
  of 4 bytes are cached; caching a file C of 3 bytes evicts exactly A and leaves B and C
  with a total of 7.\<close>

lemma documented_eviction_scenario:
  "run [ReadFileSync ''/d/A'' utf8 (Inr (Text ''aaaaa'')),
        ReadFileSync ''/d/B'' utf8 (Inr (Text ''bbbb''))] (Cache (Some 9) None) = Some scenario_A_B
   \<and> map_option fst (cacheContent (makeId ''/d/C'' utf8) (Text ''ccc'') scenario_A_B) = Some (Inr ())
   \<and> map_option (g_fileLRUList \<circ> snd) (cacheContent (makeId ''/d/C'' utf8) (Text ''ccc'') scenario_A_B)
       = Some [makeId ''/d/B'' utf8, makeId ''/d/C'' utf8]
   \<and> map_option (g_cachedFiles \<circ> snd) (cacheContent (makeId ''/d/C'' utf8) (Text ''ccc'') scenario_A_B)
       = Some [(makeId ''/d/B'' utf8, Text ''bbbb''), (makeId ''/d/C'' utf8, Text ''ccc'')]
   \<and> map_option (g_cacheSize \<circ> snd) (cacheContent (makeId ''/d/C'' utf8) (Text ''ccc'') scenario_A_B)
       = Some 7"
  by (simp add: eval_defs scenario_A_B_def)

text \<open>A file cached under two options values and a second file of the same folder: the
  notification for the first file removes both of its entries and leaves the second file
  alone.\<close>

lemma file_notification_two_options:
  "run [ReadFileSync ''/d/a'' None (Inr (Buffer [1, 2, 3])),
        ReadFileSync ''/d/a'' utf8 (Inr (Text ''abc'')),
        ReadFileSync ''/d/b'' None (Inr (Buffer [4, 5]))] (Cache None None)
     = Some scenario_two_options
   \<and> path_join ''/d'' ''a'' = ''/d/a''
   \<and> fst (watchCallback ''/d'' (Some ''a'') scenario_two_options) = Inr ()
   \<and> g_cachedFiles (snd (watchCallback ''/d'' (Some ''a'') scenario_two_options))
       = [(makeId ''/d/b'' None, Buffer [4, 5])]"
  by (simp add: eval_defs scenario_two_options_def)
section \<open>Claims\<close>

text \<open>C1. After every public operation the tracked total should equal the sum of the
  byte lengths of the cached entries. Failing input: two calls of \<^verbatim>\<open>readFile\<close> for the
  same file, both started before either read is done. Both completions run
  \<^verbatim>\<open>cacheContent\<close>, the second overwrites the entry of the first and adds its length
  again: the total is 6 for a single cached entry of 3 bytes.\<close>

theorem overlapping_readFile_counts_twice:
  "run [ReadFile ''/d/a'' None, ReadFile ''/d/a'' None,
        ReadFileDone ''/d/a'' None (Inr (Buffer [1, 2, 3])),
        ReadFileDone ''/d/a'' None (Inr (Buffer [1, 2, 3]))] (Cache (Some 10) None)
     = Some scenario_double_counted
   \<and> g_cacheSize scenario_double_counted = 6
   \<and> g_cachedFiles scenario_double_counted = [(makeId ''/d/a'' None, Buffer [1, 2, 3])]
   \<and> contentLength (Buffer [1, 2, 3]) = 3"
  by (simp add: eval_defs scenario_double_counted_def)

text \<open>C2. After every public operation the list and the content map should hold the same
  ids. Failing input: a file is read, then its folder watch reports that file. The entry
  leaves the content map; its id stays in the list, because \<^verbatim>\<open>removeById\<close> looks the id
  up as a property of the array instead of searching the array for it.\<close>

theorem invalidated_id_stays_in_LRU_list:
  "run [ReadFileSync ''/d/a'' None (Inr (Buffer [1, 2, 3, 4, 5])),
        WatchEvent ''/d'' (Some ''a'')] (Cache (Some 9) None)
     = Some scenario_invalidated
   \<and> g_cachedFiles scenario_invalidated = []
   \<and> g_fileLRUList scenario_invalidated = [makeId ''/d/a'' None]"
  by (simp add: eval_defs scenario_invalidated_def)

text \<open>C3. A watch notification without a file name should evict every cached entry of
  the folder. Failing input: one file of the folder is cached and the notification
  arrives. \<^verbatim>\<open>removeByFolder\<close> throws ReferenceError on its first id, since it reads the
  undeclared \<^verbatim>\<open>g_delim\<close>; nothing is evicted and the watcher stays open.\<close>

theorem folder_notification_throws:
  "run [ReadFileSync ''/d/a'' None (Inr (Buffer [1, 2, 3, 4, 5]))] (Cache (Some 9) None)
     = Some scenario_one_file
   \<and> path_dirname ''/d/a'' = ''/d''
   \<and> watchCallback ''/d'' None scenario_one_file
       = (Inl (ReferenceError ''g_delim''), scenario_one_file)"
  by (simp add: eval_defs scenario_one_file_def)

text \<open>C4. Caching content no larger than the limit should take entries off the head
  of the list until the new total fits and then append the new id. Failing input: limit 5;
  a file of 3 bytes is read and invalidated by its watch, so that its id stays at the head
  of the list without an entry; a second file of 3 bytes is read; then content of 3 bytes
  is cached. The total of 3 leaves no room, the loop of \<^verbatim>\<open>makeSpaceInCache\<close> takes the
  stale id off the list, and \<^verbatim>\<open>removeById\<close> throws TypeError on it: the second file,
  the least recently used entry, is not evicted and the new id is not appended.\<close>

theorem insertion_throws_on_stale_head:
  "run [ReadFileSync ''/d/a'' None (Inr (Buffer [1, 2, 3])),
        WatchEvent ''/d'' (Some ''a''),
        ReadFileSync ''/d/b'' None (Inr (Buffer [4, 5, 6]))] (Cache (Some 5) None)
     = Some scenario_stale_head
   \<and> contentLength (Buffer [7, 8, 9]) \<le> g_cacheSizeLimit scenario_stale_head
   \<and> g_cacheSizeLimit scenario_stale_head < g_cacheSize scenario_stale_head + contentLength (Buffer [7, 8, 9])
   \<and> cacheContent (makeId ''/d/c'' None) (Buffer [7, 8, 9]) scenario_stale_head
       = Some (Inl TypeError, scenario_stale_head\<lparr> g_fileLRUList := [makeId ''/d/b'' None] \<rparr>)
   \<and> g_cachedFiles scenario_stale_head = [(makeId ''/d/b'' None, Buffer [4, 5, 6])]"
  by (simp add: eval_defs scenario_stale_head_def)

text \<open>C5. Evicting an id that is not cached should be ignored silently. Failing input:
  a file is read and invalidated by its watch, so that its id stays at the head of the
  list without an entry; a second file is read; reading a third one needs room, the loop
  of \<^verbatim>\<open>makeSpaceInCache\<close> hands the stale id to \<^verbatim>\<open>removeById\<close>, and reading
  \<^verbatim>\<open>contents.length\<close> of the missing entry throws TypeError out of
  \<^verbatim>\<open>readFileSync\<close>.\<close>

theorem evicting_absent_id_throws:
  "run [ReadFileSync ''/d/a'' None (Inr (Buffer [1, 2, 3])),
        WatchEvent ''/d'' (Some ''a''),
        ReadFileSync ''/d/b'' None (Inr (Buffer [4, 5, 6]))] (Cache (Some 5) None)
     = Some scenario_stale_head
   \<and> map_of (g_cachedFiles scenario_stale_head) (makeId ''/d/a'' None) = None
   \<and> removeById [makeId ''/d/a'' None] scenario_stale_head = (Inl TypeError, scenario_stale_head)
   \<and> map_option fst (readFileSync ''/d/c'' None (Inr (Buffer [7, 8, 9])) scenario_stale_head)
       = Some (Inl TypeError)"
  by (simp add: eval_defs scenario_stale_head_def)

text \<open>C6. Content larger than the limit should be declined and still returned to the
  caller. Failing input: limit 3 and a file of 5 bytes. The cache is left as it was, but
  the branch that declines builds its log message from the undeclared \<^verbatim>\<open>filename\<close>
  and throws ReferenceError: \<^verbatim>\<open>readFileSync\<close> throws instead of returning, and after
  \<^verbatim>\<open>readFile\<close> the caller's callback is never called.\<close>

theorem oversized_read_throws:
  "readFileSync ''/d/big'' None (Inr (Buffer [1, 2, 3, 4, 5])) (Cache (Some 3) None)
     = Some (Inl (ReferenceError ''filename''), (Cache (Some 3) None)\<lparr> fs_reads := 1 \<rparr>)
   \<and> readFile_done (makeId ''/d/big'' None) (Inr (Buffer [1, 2, 3, 4, 5])) (Cache (Some 3) None)
     = Some (Inl (ReferenceError ''filename''), Cache (Some 3) None)"
  by (simp add: eval_defs)

text \<open>C7. A watch notification that carries a file name should evict the entries of
  the joined path under every options value. Failing input: \<^verbatim>\<open>constructor/a\<close> is read
  without options and with an encoding, and \<^verbatim>\<open>./constructor/a\<close> is read, which starts
  the watch of \<^verbatim>\<open>./constructor\<close>; that watch then reports \<^verbatim>\<open>a\<close>. The joined path is
  \<^verbatim>\<open>constructor/a\<close> and both entries are selected. \<^verbatim>\<open>removeById\<close> deletes the first
  and then reads \<^verbatim>\<open>g_trackedFolders["constructor"]\<close>, which finds the member of
  Object.prototype; \<^verbatim>\<open>folderInfo.fileIds[id]\<close> throws TypeError, and the entry of the
  same file under the other options value stays cached.\<close>

theorem file_notification_leaves_entry_cached:
  "run [ReadFileSync ''constructor/a'' None (Inr (Buffer [1, 2, 3])),
        ReadFileSync ''constructor/a'' utf8 (Inr (Text ''abc'')),
        ReadFileSync ''./constructor/a'' None (Inr (Buffer [1, 2, 3]))] (Cache None None)
     = Some scenario_prototype_folder
   \<and> path_dirname ''./constructor/a'' = ''./constructor''
   \<and> path_join ''./constructor'' ''a'' = ''constructor/a''
   \<and> watchCallback ''./constructor'' (Some ''a'') scenario_prototype_folder
       = (Inl TypeError,
          scenario_prototype_folder
            \<lparr> g_cacheSize := 6,
              g_cachedFiles := [(makeId ''constructor/a'' utf8, Text ''abc''),
                                (makeId ''./constructor/a'' None, Buffer [1, 2, 3])] \<rparr>)
   \<and> getFilenameFromId (makeId ''constructor/a'' utf8) = Inr ''constructor/a''"
  by (simp add: eval_defs scenario_prototype_folder_def)

text \<open>C8. Id derivation round-trips the path. \<^verbatim>\<open>makeId\<close> is a function of its two
  arguments alone, defined for every file name and every options value, so equal
  arguments give equal ids and some id is always produced; and reading the file name
  back from the id it made returns the file name that went in, whatever the options
  are.\<close>

theorem makeId_roundtrip:
  "getFilenameFromId (makeId filename options) = Inr filename"
  by (rule getFilenameFromId_makeId)

text \<open>C9. In every state that a history of operations on a new cache leads to, the
  trackers are in order: each counter equals the number of ids of its tracker, no tracker
  is without ids, the counter of trackers equals their number, and every handle that
  \<^verbatim>\<open>fs.watch\<close> returned is held by one tracker or has been closed once. When an id
  leaves its tracker, the tracker of a folder is deleted, with its watcher closed then,
  exactly if that id was its only one; every other tracker stays, its watcher open.
  (\<^verbatim>\<open>clear\<close> drops all entries and all trackers at once and closes every
  watcher.)\<close>

theorem trackers_in_order:
  assumes "run es (Cache cacheSizeLimit checkForFileChanges) = Some st"
  shows "trackers_ok st
     \<and> (\<forall>fid filename dirname folderInfo.
          map_of (g_trackedFolders st) dirname = Some folderInfo \<longrightarrow>
            (if g_checkForFileChanges st \<and> dirname = path_dirname filename
                  \<and> fileIds folderInfo = [fid]
             then fst (untrackFolder fid filename st) = Inr ()
                  \<and> map_of (g_trackedFolders (snd (untrackFolder fid filename st))) dirname = None
                  \<and> fs_closed (snd (untrackFolder fid filename st)) = fs_closed st @ [watcher folderInfo]
             else map_of (g_trackedFolders (snd (untrackFolder fid filename st))) dirname \<noteq> None
                  \<and> watcher folderInfo \<notin> set (fs_closed (snd (untrackFolder fid filename st)))))"
proof -
  have ok: "trackers_ok st"
    using run_preserves[OF preserved_trackers_ok assms Cache_trackers] .
  have "map_of (g_trackedFolders (snd (untrackFolder fid filename st))) d \<noteq> None
        \<and> watcher fi \<notin> set (fs_closed (snd (untrackFolder fid filename st)))"
    if fi: "map_of (g_trackedFolders st) d = Some fi"
      and c: "\<not> (g_checkForFileChanges st \<and> d = path_dirname filename \<and> fileIds fi = [fid])"
    for fid filename d fi
  proof -
    obtain fi' where k: "map_of (g_trackedFolders (snd (untrackFolder fid filename st))) d = Some fi'"
      "watcher fi' = watcher fi"
      using untrackFolder_keeps[OF ok fi c] by blast
    have "trackers_ok (snd (untrackFolder fid filename st))"
      using ok by (rule untrackFolder_trackers)
    then show ?thesis using live_not_closed[OF _ k(1)] k by simp
  qed
  then show ?thesis
    using ok untrackFolder_last[OF ok] by auto
qed

text \<open>Two files in two folders: both trackers are in order, evicting the file of the
  first folder deletes its tracker and closes its watcher, and the tracker of the second
  folder stays with its watcher open.\<close>

theorem trackers_in_order_witness:
  "run [ReadFileSync ''/d/a'' utf8 (Inr (Text ''abcde'')),
        ReadFileSync ''/e/b'' utf8 (Inr (Text ''abcd''))] (Cache (Some 9) None)
     = Some scenario_two_folders
   \<and> trackers_ok scenario_two_folders
   \<and> fst (untrackFolder (makeId ''/d/a'' utf8) ''/d/a'' scenario_two_folders) = Inr ()
   \<and> map_of (g_trackedFolders (snd (untrackFolder (makeId ''/d/a'' utf8) ''/d/a'' scenario_two_folders))) ''/d''
       = None
   \<and> fs_closed (snd (untrackFolder (makeId ''/d/a'' utf8) ''/d/a'' scenario_two_folders)) = [0]
   \<and> map_of (g_trackedFolders (snd (untrackFolder (makeId ''/d/a'' utf8) ''/d/a'' scenario_two_folders))) ''/e''
       \<noteq> None
   \<and> 1 \<notin> set (fs_closed (snd (untrackFolder (makeId ''/d/a'' utf8) ''/d/a'' scenario_two_folders)))"
proof -
  have r: "run [ReadFileSync ''/d/a'' utf8 (Inr (Text ''abcde'')),
        ReadFileSync ''/e/b'' utf8 (Inr (Text ''abcd''))] (Cache (Some 9) None)
     = Some scenario_two_folders"
    by (simp add: eval_defs scenario_two_folders_def)
  note t = trackers_in_order[OF r]
  have 1: "trackers_ok scenario_two_folders" using t by (rule conjunct1)
  have 2: "fst (untrackFolder (makeId ''/d/a'' utf8) ''/d/a'' scenario_two_folders) = Inr ()
     \<and> map_of (g_trackedFolders (snd (untrackFolder (makeId ''/d/a'' utf8) ''/d/a'' scenario_two_folders))) ''/d'' = None
     \<and> fs_closed (snd (untrackFolder (makeId ''/d/a'' utf8) ''/d/a'' scenario_two_folders)) = [0]"
    using t[THEN conjunct2, rule_format,
        where dirname = "''/d''" and filename = "''/d/a''" and fid = "makeId ''/d/a'' utf8"
          and folderInfo = "\<lparr> watcher = 0, fileIds = [makeId ''/d/a'' utf8], numFiles = 1 \<rparr>"]
    by (simp add: scenario_two_folders_def path_dirname_def)
  have 3: "map_of (g_trackedFolders (snd (untrackFolder (makeId ''/d/a'' utf8) ''/d/a'' scenario_two_folders))) ''/e'' \<noteq> None
     \<and> 1 \<notin> set (fs_closed (snd (untrackFolder (makeId ''/d/a'' utf8) ''/d/a'' scenario_two_folders)))"
    using t[THEN conjunct2, rule_format,
        where dirname = "''/e''" and filename = "''/d/a''" and fid = "makeId ''/d/a'' utf8"
          and folderInfo = "\<lparr> watcher = 1, fileIds = [makeId ''/e/b'' utf8], numFiles = 1 \<rparr>"]
    by (simp add: scenario_two_folders_def path_dirname_def)
  show ?thesis using r 1 2 3 by simp
qed



end
